theory Spec2Isabelle
  imports Complex_Main
begin

section \<open>Configuration\<close>

text \<open>
  The constants of the \<open>config\<close> object of \<open>space_shooter.js\<close>. JavaScript numbers are
  modelled as reals; \<open>Math.SQRT1_2\<close> is the square root of one half. The rounding of
  the arithmetic of doubles is modelled where the number of iterations of a loop depends on
  it, in \<open>loop_rounded\<close> below.
\<close>

definition canvas_size_width :: real where
  "canvas_size_width = 300"

definition canvas_size_height :: real where
  "canvas_size_height = 500"

definition update_rate_fps :: real where
  "update_rate_fps = 60"

definition update_rate_seconds :: real where
  "update_rate_seconds = 1 / update_rate_fps"

definition SQRT1_2 :: real where
  "SQRT1_2 = sqrt (1 / 2)"

section \<open>Bodies and the world\<close>

datatype kind = Player | Projectile | Mob

text \<open>
  One record for the objects of class \<open>Body\<close> and of its subclasses: JavaScript objects are
  flat, and \<open>Player\<close> and \<open>Mob\<close> both call their fields \<open>speed\<close> and \<open>accumulator\<close>.
  The field \<open>type\<close> is \<open>None\<close> while no subclass constructor has set it.
  The controller object and the raw key table of a \<open>Player\<close> are inlined.
\<close>

record body =
  id' :: nat
  type :: "kind option"
  position_x :: real
  position_y :: real
  velocity_x :: real
  velocity_y :: real
  size_width :: real
  size_height :: real
  health :: int
  move_x :: int
  move_y :: int
  action_1 :: bool
  raw_input :: "nat set"
  speed :: real
  accumulator :: real
  mobsKilled :: nat
  lifeTime :: real
  mobCount :: nat
  acceleration :: real
  switchTime :: real

text \<open>
  The global variables of the main section. A reference to a body is the address of the
  object in \<open>heap\<close>; the \<open>Body\<close> constructor is the only allocator and takes the value
  of \<open>running_id\<close> as the fresh address. \<open>entities\<close> is the sparse array of references
  (\<open>None\<close> is a hole), \<open>random_stream\<close> the values that \<open>Math.random()\<close> will return.
\<close>

record world =
  last_time :: "real option"
  loop_count :: nat
  running_id :: nat
  entities :: "nat option list"
  queued_entities_for_removal :: "nat list"
  player :: nat
  enemy_spawner :: "real option"
  collision_handler :: "unit option"
  heap :: "nat \<Rightarrow> body"
  random_stream :: "nat \<Rightarrow> real"

definition modify :: "nat \<Rightarrow> (body \<Rightarrow> body) \<Rightarrow> world \<Rightarrow> world" where
  "modify r f w = w\<lparr>heap := (heap w)(r := f (heap w r))\<rparr>"

text \<open>\<open>entities[i] = r\<close>: JavaScript extends the array with holes when \<open>i\<close> is past its end.\<close>

definition array_set :: "nat option list \<Rightarrow> nat \<Rightarrow> nat \<Rightarrow> nat option list" where
  "array_set es i r =
     (if i < length es then es[i := Some r]
      else es @ replicate (i - length es) None @ [Some r])"

text \<open>\<open>delete entities[i]\<close> leaves a hole and keeps the length; past the end it does nothing.\<close>

definition array_delete :: "nat option list \<Rightarrow> nat \<Rightarrow> nat option list" where
  "array_delete es i = (if i < length es then es[i := None] else es)"

text \<open>\<open>Object.values(entities)\<close>: the references present, by ascending index.\<close>

fun Object_values :: "nat option list \<Rightarrow> nat list" where
  "Object_values [] = []"
| "Object_values (None # es) = Object_values es"
| "Object_values (Some r # es) = r # Object_values es"

section \<open>Randomness\<close>

definition Math_random :: "world \<Rightarrow> real \<times> world" where
  "Math_random w = (random_stream w 0, w\<lparr>random_stream := (\<lambda>n. random_stream w (Suc n))\<rparr>)"

definition randomInt :: "real \<Rightarrow> real \<Rightarrow> world \<Rightarrow> real \<times> world" where
  "randomInt lo hi w =
     (case Math_random w of (u, w') \<Rightarrow> (of_int \<lfloor>u * (hi - lo + 1) + lo\<rfloor>, w'))"

section \<open>Input\<close>

definition keydown :: "nat \<Rightarrow> world \<Rightarrow> world" where
  "keydown keyCode w = modify (player w) (\<lambda>b. b\<lparr>raw_input := insert keyCode (raw_input b)\<rparr>) w"

definition keyup :: "nat \<Rightarrow> world \<Rightarrow> world" where
  "keyup keyCode w = modify (player w) (\<lambda>b. b\<lparr>raw_input := raw_input b - {keyCode}\<rparr>) w"

definition resetController :: "body \<Rightarrow> body" where
  "resetController b = b\<lparr>action_1 := False, move_x := 0, move_y := 0\<rparr>"

definition pollController :: "body \<Rightarrow> body" where
  "pollController b0 =
     (let b = resetController b0;
          b = (if 32 \<in> raw_input b then b\<lparr>action_1 := True\<rparr> else b);
          b = (if 65 \<in> raw_input b then b\<lparr>move_x := move_x b + (- 1)\<rparr> else b);
          b = (if 68 \<in> raw_input b then b\<lparr>move_x := move_x b + 1\<rparr> else b);
          b = (if 83 \<in> raw_input b then b\<lparr>move_y := move_y b + 1\<rparr> else b);
          b = (if 87 \<in> raw_input b then b\<lparr>move_y := move_y b + (- 1)\<rparr> else b)
      in b)"

section \<open>Body\<close>

definition Body_fields :: body where
  "Body_fields = \<lparr>id' = 0, type = None, position_x = 0, position_y = 0,
     velocity_x = 0, velocity_y = 0, size_width = 10, size_height = 10, health = 100,
     move_x = 0, move_y = 0, action_1 = False, raw_input = {}, speed = 0, accumulator = 0,
     mobsKilled = 0, lifeTime = 0, mobCount = 0, acceleration = 0, switchTime = 0\<rparr>"

text \<open>The constructor: \<open>this.id = running_id++; entities[this.id] = this\<close>.\<close>

definition Body_new :: "world \<Rightarrow> nat \<times> world" where
  "Body_new w =
     (let r = running_id w;
          w = w\<lparr>heap := (heap w)(r := Body_fields\<lparr>id' := running_id w\<rparr>),
                running_id := running_id w + 1\<rparr>;
          w = w\<lparr>entities := array_set (entities w) (id' (heap w r)) r\<rparr>
      in (r, w))"

definition half_size_width :: "body \<Rightarrow> real" where
  "half_size_width b = size_width b / 2"

definition half_size_height :: "body \<Rightarrow> real" where
  "half_size_height b = size_height b / 2"

definition isDead :: "body \<Rightarrow> bool" where
  "isDead b = (health b \<le> 0)"

definition Body_update :: "nat \<Rightarrow> real \<Rightarrow> world \<Rightarrow> world" where
  "Body_update this delta_time w =
     (let w = modify this (\<lambda>b. b\<lparr>position_x := position_x b + delta_time * velocity_x b\<rparr>) w;
          w = modify this (\<lambda>b. b\<lparr>position_y := position_y b + delta_time * velocity_y b\<rparr>) w
      in w)"

definition remove :: "nat \<Rightarrow> world \<Rightarrow> world" where
  "remove this w =
     w\<lparr>queued_entities_for_removal := queued_entities_for_removal w @ [id' (heap w this)]\<rparr>"

section \<open>Projectile\<close>

definition Projectile_new :: "world \<Rightarrow> nat \<times> world" where
  "Projectile_new w0 =
     (case Body_new w0 of (this, w) \<Rightarrow>
        let w = modify this (\<lambda>b. b\<lparr>type := Some Projectile\<rparr>) w;
            w = modify this (\<lambda>b. b\<lparr>velocity_y := - 100\<rparr>) w
        in case randomInt 0 6 w of (a, w) \<Rightarrow>
        let w = modify this (\<lambda>b. b\<lparr>acceleration := a\<rparr>) w;
            w = modify this (\<lambda>b. b\<lparr>position_x := position_x (heap w (player w)),
                  position_y := position_y (heap w (player w)) - size_height (heap w (player w)) - 3\<rparr>) w;
            w = modify this (\<lambda>b. b\<lparr>size_width := 3, size_height := 12\<rparr>) w
        in (this, w))"

definition Projectile_update :: "nat \<Rightarrow> real \<Rightarrow> world \<Rightarrow> world" where
  "Projectile_update this delta_time w =
     (let w = (if position_y (heap w this) \<le> - 5 then remove this w else w);
          w = modify this (\<lambda>b. b\<lparr>velocity_y := velocity_y b - acceleration b\<rparr>) w
      in Body_update this delta_time w)"

section \<open>Player\<close>

definition Player_new :: "world \<Rightarrow> nat \<times> world" where
  "Player_new w0 =
     (case Body_new w0 of (this, w) \<Rightarrow>
        let w = modify this (\<lambda>b. b\<lparr>move_x := 0, move_y := 0, action_1 := False, raw_input := {},
                  speed := 120, accumulator := 0, mobsKilled := 0, lifeTime := 0, mobCount := 0\<rparr>) w;
            w = modify this (\<lambda>b. b\<lparr>type := Some Player\<rparr>) w;
            w = modify this (\<lambda>b. b\<lparr>position_x := canvas_size_width / 2,
                  position_y := canvas_size_height - 100\<rparr>) w;
            w = modify this (\<lambda>b. b\<lparr>size_width := 11\<rparr>) w
        in (this, w))"

definition Player_update :: "nat \<Rightarrow> real \<Rightarrow> world \<Rightarrow> world" where
  "Player_update this delta_time w =
     (let w = modify this (\<lambda>b. b\<lparr>lifeTime := lifeTime b + delta_time\<rparr>) w;
          w = modify this (\<lambda>b. b\<lparr>accumulator := accumulator b + delta_time\<rparr>) w;
          w = modify this (\<lambda>b. b\<lparr>velocity_x := speed b * of_int (move_x b)\<rparr>) w;
          w = modify this (\<lambda>b. b\<lparr>velocity_y := speed b * of_int (move_y b)\<rparr>) w;
          w = (if move_x (heap w this) \<noteq> 0 \<and> move_y (heap w this) \<noteq> 0
               then modify this (\<lambda>b. b\<lparr>velocity_y := velocity_y b * SQRT1_2\<rparr>)
                      (modify this (\<lambda>b. b\<lparr>velocity_x := velocity_x b * SQRT1_2\<rparr>) w)
               else w);
          w = (if action_1 (heap w this) = True \<and> accumulator (heap w this) \<ge> 1
               then modify this (\<lambda>b. b\<lparr>accumulator := 0\<rparr>) (snd (Projectile_new w))
               else w);
          w = Body_update this delta_time w;
          w = modify this (\<lambda>b. b\<lparr>position_x := min (max 0 (position_x b)) canvas_size_width\<rparr>) w;
          w = modify this (\<lambda>b. b\<lparr>position_y := min (max 0 (position_y b)) canvas_size_height\<rparr>) w
      in w)"

section \<open>Mob and Enemy\_Spawner\<close>

definition Mob_new :: "world \<Rightarrow> nat \<times> world" where
  "Mob_new w0 =
     (case Body_new w0 of (this, w) \<Rightarrow>
        let w = modify this (\<lambda>b. b\<lparr>accumulator := 0\<rparr>) w;
            w = modify this (\<lambda>b. b\<lparr>switchTime := 1 / 10\<rparr>) w;
            w = modify this (\<lambda>b. b\<lparr>type := Some Mob\<rparr>) w
        in case randomInt 20 (canvas_size_width - 20) w of (x, w) \<Rightarrow>
        let w = modify this (\<lambda>b. b\<lparr>position_x := x, position_y := - 12\<rparr>) w;
            w = modify this (\<lambda>b. b\<lparr>speed := 100\<rparr>) w;
            w = modify this (\<lambda>b. b\<lparr>velocity_y := 100\<rparr>) w;
            w = modify this (\<lambda>b. b\<lparr>size_width := 10\<rparr>) w
        in (this, w))"

definition Mob_switch :: "nat \<Rightarrow> world \<Rightarrow> world" where
  "Mob_switch this w0 =
     (case randomInt 1 3 w0 of (x, w) \<Rightarrow>
        let w = (if x = 1 then
                   modify this (\<lambda>b. b\<lparr>velocity_y := speed b * SQRT1_2\<rparr>)
                     (modify this (\<lambda>b. b\<lparr>velocity_x := speed b * SQRT1_2\<rparr>) w)
                 else if x = 2 then
                   modify this (\<lambda>b. b\<lparr>velocity_y := speed b * SQRT1_2\<rparr>)
                     (modify this (\<lambda>b. b\<lparr>velocity_x := - speed b * SQRT1_2\<rparr>) w)
                 else if x = 3 then
                   modify this (\<lambda>b. b\<lparr>velocity_y := speed b\<rparr>)
                     (modify this (\<lambda>b. b\<lparr>velocity_x := 0\<rparr>) w)
                 else w)
        in case randomInt 0 2 w of (t, w) \<Rightarrow>
        let w = modify this (\<lambda>b. b\<lparr>switchTime := t\<rparr>) w
        in modify this (\<lambda>b. b\<lparr>accumulator := 0\<rparr>) w)"

definition Mob_update :: "nat \<Rightarrow> real \<Rightarrow> world \<Rightarrow> world" where
  "Mob_update this delta_time w =
     (let w = modify this (\<lambda>b. b\<lparr>accumulator := accumulator b + delta_time\<rparr>) w;
          w = (if position_y (heap w this) \<ge> canvas_size_height + 5 then remove this w else w);
          w = (if position_x (heap w this) \<ge> canvas_size_width - 5
               then modify this (\<lambda>b. b\<lparr>velocity_x := - speed b\<rparr>) w
               else if position_x (heap w this) \<le> 5
               then modify this (\<lambda>b. b\<lparr>velocity_x := speed b\<rparr>) w
               else w);
          w = Body_update this delta_time w
      in if accumulator (heap w this) \<ge> switchTime (heap w this) then Mob_switch this w else w)"

text \<open>The spawner object holds one field, its accumulator; \<open>enemy_spawner\<close> stores it.\<close>

definition Enemy_Spawner_update :: "real \<Rightarrow> real \<Rightarrow> world \<Rightarrow> world" where
  "Enemy_Spawner_update acc delta_time w =
     (let acc = acc + delta_time
      in if acc \<ge> 5
         then (let w = snd (Mob_new w);
                   w = modify (player w) (\<lambda>b. b\<lparr>mobCount := mobCount b + 1\<rparr>) w
               in w\<lparr>enemy_spawner := Some 0\<rparr>)
         else w\<lparr>enemy_spawner := Some acc\<rparr>)"

section \<open>CollissionChecker\<close>

definition overlap :: "body \<Rightarrow> body \<Rightarrow> bool" where
  "overlap rect1 rect2 \<longleftrightarrow>
     position_x rect1 < position_x rect2 + size_width rect2 \<and>
     position_x rect1 + size_width rect1 > position_x rect2 \<and>
     position_y rect1 < position_y rect2 + size_height rect2 \<and>
     position_y rect1 + size_height rect1 > position_y rect2"

text \<open>The body of the inner loop, for \<open>rect1 = entities[i]\<close> and \<open>rect2 = entities[j]\<close>.\<close>

definition collide :: "nat \<Rightarrow> nat \<Rightarrow> world \<Rightarrow> world" where
  "collide rect1 rect2 w =
     (if overlap (heap w rect1) (heap w rect2) then
        if type (heap w rect1) = type (heap w rect2) then w
        else if type (heap w rect1) = Some Player \<and> type (heap w rect2) = Some Mob then
          remove rect2 (modify rect1 (\<lambda>b. b\<lparr>health := health b - 20\<rparr>) w)
        else if type (heap w rect1) = Some Projectile \<and> type (heap w rect2) = Some Mob then
          (let w = remove rect2 w;
               w = remove rect1 w
           in modify (player w) (\<lambda>b. b\<lparr>mobsKilled := mobsKilled b + 1\<rparr>) w)
        else w
      else w)"

definition inner_step :: "nat \<Rightarrow> nat \<Rightarrow> world \<Rightarrow> world" where
  "inner_step rect1 j w =
     (case entities w ! j of None \<Rightarrow> w | Some rect2 \<Rightarrow> collide rect1 rect2 w)"

definition outer_step :: "nat list \<Rightarrow> nat \<Rightarrow> world \<Rightarrow> world" where
  "outer_step js i w =
     (case entities w ! i of None \<Rightarrow> w | Some rect1 \<Rightarrow> fold (inner_step rect1) js w)"

text \<open>
  The two \<open>for\<close> loops over \<open>0 .. entities.length - 1\<close>. No statement of the loop bodies
  assigns to \<open>entities\<close>, so the index range is the same at every iteration.
\<close>

definition scan :: "nat list \<Rightarrow> nat list \<Rightarrow> world \<Rightarrow> world" where
  "scan is js w = fold (outer_step js) is w"

definition CollissionChecker_update :: "world \<Rightarrow> world" where
  "CollissionChecker_update w =
     scan [0 ..< length (entities w)] [0 ..< length (entities w)] w"

section \<open>Main section\<close>

definition start :: "world \<Rightarrow> world" where
  "start w0 =
     (let w = w0\<lparr>entities := []\<rparr>;
          w = w\<lparr>queued_entities_for_removal := []\<rparr>
      in case Player_new w of (p, w) \<Rightarrow>
         w\<lparr>player := p, enemy_spawner := Some 0, collision_handler := Some ()\<rparr>)"

text \<open>\<open>entity.update(delta_time)\<close>: dispatch on the class of the object.\<close>

definition entity_update :: "real \<Rightarrow> nat \<Rightarrow> world \<Rightarrow> world" where
  "entity_update delta_time this w =
     (case type (heap w this) of
        None \<Rightarrow> Body_update this delta_time w
      | Some Player \<Rightarrow> Player_update this delta_time w
      | Some Projectile \<Rightarrow> Projectile_update this delta_time w
      | Some Mob \<Rightarrow> Mob_update this delta_time w)"

text \<open>The phases of \<open>update(delta_time)\<close>, in the order of the source.\<close>

definition move_entities :: "real \<Rightarrow> world \<Rightarrow> world" where
  "move_entities delta_time w0 =
     (let w = modify (player w0) pollController w0
      in fold (entity_update delta_time) (Object_values (entities w)) w)"

definition detect_collisions :: "world \<Rightarrow> world" where
  "detect_collisions w =
     (case collision_handler w of None \<Rightarrow> w | Some _ \<Rightarrow> CollissionChecker_update w)"

definition remove_enemies :: "world \<Rightarrow> world" where
  "remove_enemies w =
     (let w = fold (\<lambda>i w. w\<lparr>entities := array_delete (entities w) i\<rparr>)
                (queued_entities_for_removal w) w
      in w\<lparr>queued_entities_for_removal := []\<rparr>)"

definition spawn_enemies :: "real \<Rightarrow> world \<Rightarrow> world" where
  "spawn_enemies delta_time w =
     (case enemy_spawner w of None \<Rightarrow> w | Some acc \<Rightarrow> Enemy_Spawner_update acc delta_time w)"

definition restart_when_dead :: "world \<Rightarrow> world" where
  "restart_when_dead w =
     (if isDead (heap w (player w)) \<and> action_1 (heap w (player w)) then start w else w)"

definition update :: "real \<Rightarrow> world \<Rightarrow> world" where
  "update delta_time w =
     restart_when_dead (spawn_enemies delta_time (remove_enemies
       (detect_collisions (move_entities delta_time w))))"

text \<open>Of \<open>draw\<close>, only the game-over branch changes the state: \<open>player.remove()\<close>.\<close>

definition draw :: "world \<Rightarrow> world" where
  "draw w = (if isDead (heap w (player w)) then remove (player w) w else w)"

text \<open>
  The \<open>while\<close> loop of \<open>loop\<close>, with the local \<open>delta_time\<close> as an argument, in exact
  arithmetic: the division \<open>1 / fps\<close> and the subtraction of the tick are not rounded, and
  then the loop always returns. It is the instance of \<open>loop_while_rounded\<close> below at the
  exact operations (lemma \<open>loop_rounded_exact\<close>), and the sessions \<open>run\<close> below are
  built on it.
\<close>

function loop_while :: "real \<Rightarrow> real \<Rightarrow> world \<Rightarrow> world" where
  "loop_while curr_time delta_time w =
     (if delta_time > update_rate_seconds then
        (let w = update update_rate_seconds w;
             w = draw w;
             delta_time = delta_time - update_rate_seconds;
             w = w\<lparr>last_time := Some curr_time\<rparr>;
             w = w\<lparr>loop_count := loop_count w + 1\<rparr>
         in loop_while curr_time delta_time w)
      else w)"
  by pat_completeness auto
termination
proof (relation "measure (\<lambda>(c, d, w). nat \<lceil>d * 60\<rceil>)", goal_cases)
  case 1
  show ?case by simp
next
  case (2 curr_time delta_time w)
  then have d: "1 < delta_time * 60"
    by (simp add: update_rate_seconds_def update_rate_fps_def)
  have "\<lceil>(delta_time - update_rate_seconds) * 60\<rceil> = \<lceil>delta_time * 60\<rceil> - 1"
    by (simp add: update_rate_seconds_def update_rate_fps_def algebra_simps)
  moreover from d have "1 < \<lceil>delta_time * 60\<rceil>" by linarith
  ultimately show ?case using 2 by simp
qed

declare loop_while.simps [simp del]

text \<open>\<open>loop(curr_time)\<close>, called by the window with the time in milliseconds.\<close>

definition loop :: "real \<Rightarrow> world \<Rightarrow> world" where
  "loop curr_time_ms w0 =
     (let curr_time = curr_time_ms / 1000;
          w = (if last_time w0 = None then w0\<lparr>last_time := Some curr_time\<rparr> else w0);
          delta_time = curr_time - the (last_time w)
      in loop_while curr_time delta_time w)"

text \<open>The integer nearest to a real, the even one when two are equally near.\<close>

definition round_ties_even :: "real \<Rightarrow> int" where
  "round_ties_even x =
     (let n = \<lfloor>x\<rfloor>
      in if x - of_int n < 1 / 2 then n
         else if 1 / 2 < x - of_int n then n + 1
         else if even n then n else n + 1)"

text \<open>
  The rounding of a real to a JavaScript number, an IEEE 754 double, to nearest with ties
  to even: \<open>x\<close> is rounded to a multiple of \<open>2 ^ (e - 52)\<close>, where \<open>e\<close> is the binary
  exponent of \<open>x\<close>, and \<open>-1022\<close> for the subnormal numbers. Results of magnitude
  \<open>2 ^ 1024\<close> and more, which JavaScript gives as \<open>Infinity\<close>, are outside the model.
  Division and subtraction of doubles are the exact operations followed by this rounding.
\<close>

definition double :: "real \<Rightarrow> real" where
  "double x =
     (if x = 0 then 0
      else (let e = max (- 1022) \<lfloor>log 2 \<bar>x\<bar>\<rfloor>
            in of_int (round_ties_even (x / 2 powr (of_int e - 52))) * 2 powr (of_int e - 52)))"

definition double_div :: "real \<Rightarrow> real \<Rightarrow> real" where
  "double_div x y = double (x / y)"

definition double_sub :: "real \<Rightarrow> real \<Rightarrow> real" where
  "double_sub x y = double (x - y)"

text \<open>
  The same function in the arithmetic of the source. JavaScript numbers are IEEE doubles:
  \<open>curr_time /= 1000\<close>, \<open>1 / config.update_rate.fps\<close>, \<open>curr_time - last_time\<close> and
  \<open>delta_time -= config.update_rate.seconds\<close> round their exact result, the comparison
  \<open>delta_time > config.update_rate.seconds\<close> is exact. The rounded division \<open>fdiv\<close> and
  the rounded subtraction \<open>fsub\<close> are parameters, so that what is proved holds whatever
  the rounding is, and \<open>double_div\<close> and \<open>double_sub\<close> are the operations of the
  source; the times themselves are finite doubles, which are reals. With rounding
  the subtraction may leave \<open>delta_time\<close> as it is, and then the loop does not return:
  the result is \<open>None\<close>.
\<close>

partial_function (option) loop_while_rounded ::
    "(real \<Rightarrow> real \<Rightarrow> real) \<Rightarrow> real \<Rightarrow> real \<Rightarrow> real \<Rightarrow> world \<Rightarrow> world option" where
  "loop_while_rounded fsub seconds curr_time delta_time w =
     (if delta_time > seconds then
        (let w = update seconds w;
             w = draw w;
             delta_time = fsub delta_time seconds;
             w = w\<lparr>last_time := Some curr_time\<rparr>;
             w = w\<lparr>loop_count := loop_count w + 1\<rparr>
         in loop_while_rounded fsub seconds curr_time delta_time w)
      else Some w)"

definition loop_rounded ::
    "(real \<Rightarrow> real \<Rightarrow> real) \<Rightarrow> (real \<Rightarrow> real \<Rightarrow> real) \<Rightarrow> real \<Rightarrow> world \<Rightarrow> world option" where
  "loop_rounded fdiv fsub curr_time_ms w0 =
     (let curr_time = fdiv curr_time_ms 1000;
          seconds = fdiv 1 update_rate_fps;
          w = (if last_time w0 = None then w0\<lparr>last_time := Some curr_time\<rparr> else w0);
          delta_time = fsub curr_time (the (last_time w))
      in loop_while_rounded fsub seconds curr_time delta_time w)"

text \<open>
  What one iteration of the \<open>while\<close> loop does to the state: one \<open>update\<close> with the tick
  duration, one \<open>draw\<close>, \<open>last_time = curr_time\<close> and \<open>loop_count++\<close>.
\<close>

definition loop_body :: "real \<Rightarrow> real \<Rightarrow> world \<Rightarrow> world" where
  "loop_body seconds curr_time w =
     (let w = update seconds w;
          w = draw w;
          w = w\<lparr>last_time := Some curr_time\<rparr>;
          w = w\<lparr>loop_count := loop_count w + 1\<rparr>
      in w)"

text \<open>What the window delivers: animation frames and key events, one at a time.\<close>

datatype event = AnimationFrame real | KeyDown nat | KeyUp nat

fun dispatch :: "event \<Rightarrow> world \<Rightarrow> world" where
  "dispatch (AnimationFrame t) w = loop t w"
| "dispatch (KeyDown k) w = keydown k w"
| "dispatch (KeyUp k) w = keyup k w"

definition run :: "event list \<Rightarrow> world \<Rightarrow> world" where
  "run evs w = fold dispatch evs w"

text \<open>The same with the rounded loop; a callback that does not return ends the session.\<close>

fun dispatch_rounded ::
    "(real \<Rightarrow> real \<Rightarrow> real) \<Rightarrow> (real \<Rightarrow> real \<Rightarrow> real) \<Rightarrow> event \<Rightarrow> world \<Rightarrow> world option" where
  "dispatch_rounded fdiv fsub (AnimationFrame t) w = loop_rounded fdiv fsub t w"
| "dispatch_rounded fdiv fsub (KeyDown k) w = Some (keydown k w)"
| "dispatch_rounded fdiv fsub (KeyUp k) w = Some (keyup k w)"

fun run_rounded ::
    "(real \<Rightarrow> real \<Rightarrow> real) \<Rightarrow> (real \<Rightarrow> real \<Rightarrow> real) \<Rightarrow> event list \<Rightarrow> world \<Rightarrow> world option" where
  "run_rounded fdiv fsub [] w = Some w"
| "run_rounded fdiv fsub (ev # evs) w =
     (case dispatch_rounded fdiv fsub ev w of
        None \<Rightarrow> None
      | Some w \<Rightarrow> run_rounded fdiv fsub evs w)"

text \<open>The state when the script is loaded, before its call of \<open>start()\<close>.\<close>

definition script_loaded :: "(nat \<Rightarrow> real) \<Rightarrow> world" where
  "script_loaded rnd = \<lparr>last_time = None, loop_count = 0, running_id = 0, entities = [],
     queued_entities_for_removal = [], player = 0, enemy_spawner = None,
     collision_handler = None, heap = (\<lambda>_. Body_fields), random_stream = rnd\<rparr>"

section \<open>Sample worlds\<close>

text \<open>
  Concrete states used to exercise the theorems below: the game right after the script has
  run \<open>start()\<close>, and states reached from it by key events and method calls.
\<close>

definition half_stream :: "nat \<Rightarrow> real" where
  "half_stream n = 1 / 2"

definition new_game :: "(nat \<Rightarrow> real) \<Rightarrow> world" where
  "new_game rnd = start (script_loaded rnd)"

definition world_at_right_edge :: world where
  "world_at_right_edge =
     modify 0 pollController (keydown 68
       (modify 0 (\<lambda>b. b\<lparr>position_x := 300\<rparr>) (new_game half_stream)))"

definition world_diagonal :: world where
  "world_diagonal = modify 0 pollController (keydown 68 (keydown 83 (new_game half_stream)))"

definition world_shot :: world where
  "world_shot = snd (Projectile_new (new_game half_stream))"

definition world_mob :: world where
  "world_mob = snd (Mob_new (new_game half_stream))"

text \<open>
  The headings a \<open>Mob\<close> can have: its speed is the constant 100 and its y-velocity is
  \<open>speed\<close> or \<open>speed * Math.SQRT1_2\<close>.
\<close>

definition Mob_heading_down :: "body \<Rightarrow> bool" where
  "Mob_heading_down b \<longleftrightarrow>
     speed b = 100 \<and> (velocity_y b = speed b \<or> velocity_y b = speed b * SQRT1_2)"

text \<open>
  How the identities evolve from a state \<open>w\<close> to a later state \<open>w'\<close>: the counter does not
  decrease, the bodies that exist in \<open>w\<close> keep their identity, and the bodies created in
  between carry the counter values in between, each its own.
\<close>

definition ids_grow :: "world \<Rightarrow> world \<Rightarrow> bool" where
  "ids_grow w w' \<longleftrightarrow>
     running_id w \<le> running_id w' \<and>
     (\<forall>r<running_id w. id' (heap w' r) = id' (heap w r)) \<and>
     (\<forall>r. running_id w \<le> r \<and> r < running_id w' \<longrightarrow> id' (heap w' r) = r)"

text \<open>
  What a method call may do to the world, from \<open>w\<close> to \<open>w'\<close>: the clock, the tick count,
  the player reference and the collision handler stay; identities grow; the bodies of \<open>w\<close>
  keep their class; the registry is only extended, past its end, by references to new
  bodies stored under their own identity; the removal queue is only appended to, with
  identities from \<open>A\<close>.
\<close>

definition evolves :: "nat set \<Rightarrow> world \<Rightarrow> world \<Rightarrow> bool" where
  "evolves A w w' \<longleftrightarrow>
     last_time w' = last_time w \<and> loop_count w' = loop_count w \<and> player w' = player w \<and>
     collision_handler w' = collision_handler w \<and>
     ids_grow w w' \<and>
     (\<forall>r<running_id w. type (heap w' r) = type (heap w r)) \<and>
     (length (entities w) \<le> running_id w \<longrightarrow>
        length (entities w') \<le> running_id w' \<and>
        length (entities w) \<le> length (entities w') \<and>
        (\<forall>i<length (entities w). entities w' ! i = entities w ! i) \<and>
        (\<forall>i. length (entities w) \<le> i \<and> i < length (entities w') \<longrightarrow>
           entities w' ! i = None \<or> (entities w' ! i = Some i \<and> running_id w \<le> i))) \<and>
     (\<exists>q. queued_entities_for_removal w' = queued_entities_for_removal w @ q \<and> set q \<subseteq> A)"

text \<open>
  The two kind rules of the resolver, for \<open>rect1\<close> and \<open>rect2\<close> in this order: the
  overlap test holds, \<open>rect1\<close> is the \<open>Player\<close> (or a \<open>Projectile\<close>) and \<open>rect2\<close> is a
  \<open>Mob\<close>.
\<close>

definition Player_hits_Mob :: "world \<Rightarrow> nat \<Rightarrow> nat \<Rightarrow> bool" where
  "Player_hits_Mob w rect1 rect2 \<longleftrightarrow>
     overlap (heap w rect1) (heap w rect2) \<and>
     type (heap w rect1) = Some Player \<and> type (heap w rect2) = Some Mob"

definition Projectile_hits_Mob :: "world \<Rightarrow> nat \<Rightarrow> nat \<Rightarrow> bool" where
  "Projectile_hits_Mob w rect1 rect2 \<longleftrightarrow>
     overlap (heap w rect1) (heap w rect2) \<and>
     type (heap w rect1) = Some Projectile \<and> type (heap w rect2) = Some Mob"

definition world_collision :: world where
  "world_collision =
     snd (Projectile_new (modify 1 (\<lambda>b. b\<lparr>position_y := 395\<rparr>) world_mob))"

definition world_player_mob :: world where
  "world_player_mob = modify 1 (\<lambda>b. b\<lparr>position_y := 395\<rparr>) world_mob"

text \<open>
  The state in which the player of \<open>world_collision\<close> is no longer in the registry: a
  projectile and a mob are the live bodies.
\<close>

definition world_projectile_mob :: world where
  "world_projectile_mob =
     world_collision\<lparr>entities := array_delete (entities world_collision) 0\<rparr>"

text \<open>The outcome of one application of each kind rule.\<close>

definition Player_Mob_rule :: "nat \<Rightarrow> nat \<Rightarrow> world \<Rightarrow> world" where
  "Player_Mob_rule p m w =
     w\<lparr>heap := (heap w)(p := (heap w p)\<lparr>health := health (heap w p) - 20\<rparr>),
       queued_entities_for_removal := queued_entities_for_removal w @ [id' (heap w m)]\<rparr>"

definition Projectile_Mob_rule :: "nat \<Rightarrow> nat \<Rightarrow> world \<Rightarrow> world" where
  "Projectile_Mob_rule j m w =
     w\<lparr>heap := (heap w)(player w := (heap w (player w))\<lparr>mobsKilled :=
         mobsKilled (heap w (player w)) + 1\<rparr>),
       queued_entities_for_removal :=
         queued_entities_for_removal w @ [id' (heap w m), id' (heap w j)]\<rparr>"

text \<open>
  The number of iterations of the \<open>while\<close> loop of \<open>loop\<close> that starts with \<open>delta_time\<close>,
  in exact arithmetic.
\<close>

definition ticks :: "real \<Rightarrow> nat" where
  "ticks delta_time =
     (if delta_time > update_rate_seconds then nat (\<lceil>delta_time / update_rate_seconds\<rceil> - 1) else 0)"

text \<open>
  The value of the local \<open>delta_time\<close> after \<open>n\<close> executions of
  \<open>delta_time -= config.update_rate.seconds\<close>, with the rounded subtraction \<open>fsub\<close>.
\<close>

definition delta_after :: "(real \<Rightarrow> real \<Rightarrow> real) \<Rightarrow> real \<Rightarrow> real \<Rightarrow> nat \<Rightarrow> real" where
  "delta_after fsub seconds delta_time n = ((\<lambda>d. fsub d seconds) ^^ n) delta_time"

text \<open>
  The first animation frame of a session and four more, 30 ms apart.
\<close>

definition five_frames :: "event list" where
  "five_frames = [AnimationFrame 0, AnimationFrame 30, AnimationFrame 60, AnimationFrame 90,
     AnimationFrame 120]"

definition four_frames :: "event list" where
  "four_frames = [AnimationFrame 30, AnimationFrame 60, AnimationFrame 90, AnimationFrame 120]"

definition world_first_frame :: world where
  "world_first_frame = loop 0 (new_game half_stream)"

definition key_and_frames :: "event list" where
  "key_and_frames = [AnimationFrame 0, KeyDown 32, AnimationFrame 1100]"

text \<open>\<open>entities[i]\<close> is not \<open>undefined\<close>.\<close>

definition present :: "nat option list \<Rightarrow> nat \<Rightarrow> bool" where
  "present es i \<longleftrightarrow> i < length es \<and> es ! i \<noteq> None"

text \<open>
  The registry as the constructor builds it: every reference in it sits at the index that
  is the identity of its body, the body exists, and the array ends below the counter.
\<close>

definition registry_ok :: "world \<Rightarrow> bool" where
  "registry_ok w \<longleftrightarrow>
     length (entities w) \<le> running_id w \<and>
     (\<forall>i<length (entities w). \<forall>r. entities w ! i = Some r \<longrightarrow>
        r < running_id w \<and> id' (heap w r) = i)"

section \<open>Symbolic execution of the methods\<close>

text \<open>
  The methods are unfolded call by value: a \<open>let\<close> is unfolded once its argument is in
  normal form, and each branch condition is decided by a case distinction on the initial
  state before the simplifier runs.
\<close>

lemmas exec = modify_def Let_def Body_update_def remove_def Body_new_def randomInt_def
  Math_random_def

lemma Projectile_new_fst: "fst (Projectile_new w) = running_id w"
  by (simp add: Projectile_new_def exec cong: let_weak_cong prod.case_cong_weak)

lemma Projectile_new_heap_other:
  "r \<noteq> running_id w \<Longrightarrow> heap (snd (Projectile_new w)) r = heap w r"
  by (simp add: Projectile_new_def exec cong: let_weak_cong prod.case_cong_weak)

lemma Projectile_new_fields:
  "velocity_y (heap (snd (Projectile_new w)) (running_id w)) = - 100"
  "velocity_x (heap (snd (Projectile_new w)) (running_id w)) = 0"
  "acceleration (heap (snd (Projectile_new w)) (running_id w)) = of_int \<lfloor>random_stream w 0 * 7\<rfloor>"
  "type (heap (snd (Projectile_new w)) (running_id w)) = Some Projectile"
  "size_width (heap (snd (Projectile_new w)) (running_id w)) = 3"
  "size_height (heap (snd (Projectile_new w)) (running_id w)) = 12"
  "id' (heap (snd (Projectile_new w)) (running_id w)) = running_id w"
  by (simp_all add: Projectile_new_def exec Body_fields_def cong: let_weak_cong prod.case_cong_weak)

lemma Projectile_new_position:
  "player w \<noteq> running_id w \<Longrightarrow>
     position_x (heap (snd (Projectile_new w)) (running_id w)) = position_x (heap w (player w))"
  "player w \<noteq> running_id w \<Longrightarrow>
     position_y (heap (snd (Projectile_new w)) (running_id w)) =
       position_y (heap w (player w)) - size_height (heap w (player w)) - 3"
  by (simp_all add: Projectile_new_def exec cong: let_weak_cong prod.case_cong_weak)

lemma Projectile_update_fields:
  "velocity_y (heap (Projectile_update this dt w) this) =
     velocity_y (heap w this) - acceleration (heap w this)"
  "acceleration (heap (Projectile_update this dt w) this) = acceleration (heap w this)"
  "position_y (heap (Projectile_update this dt w) this) =
     position_y (heap w this) + dt * (velocity_y (heap w this) - acceleration (heap w this))"
  by (cases "position_y (heap w this) \<le> - 5";
      simp add: Projectile_update_def exec cong: let_weak_cong prod.case_cong_weak)+

lemma Player_update_velocity:
  assumes "this \<noteq> running_id w"
  shows "velocity_x (heap (Player_update this dt w) this) =
           (if move_x (heap w this) \<noteq> 0 \<and> move_y (heap w this) \<noteq> 0
            then speed (heap w this) * of_int (move_x (heap w this)) * SQRT1_2
            else speed (heap w this) * of_int (move_x (heap w this)))"
    and "velocity_y (heap (Player_update this dt w) this) =
           (if move_x (heap w this) \<noteq> 0 \<and> move_y (heap w this) \<noteq> 0
            then speed (heap w this) * of_int (move_y (heap w this)) * SQRT1_2
            else speed (heap w this) * of_int (move_y (heap w this)))"
  using assms
  by (cases "move_x (heap w this) = 0"; cases "move_y (heap w this) = 0";
      cases "action_1 (heap w this)"; cases "1 \<le> accumulator (heap w this) + dt";
      simp add: Player_update_def Projectile_new_heap_other exec
        cong: let_weak_cong prod.case_cong_weak)+

lemma Player_update_position:
  assumes "this \<noteq> running_id w"
  shows "position_x (heap (Player_update this dt w) this) =
     min (max 0 (position_x (heap w this) + dt * velocity_x (heap (Player_update this dt w) this)))
       canvas_size_width"
   and "position_y (heap (Player_update this dt w) this) =
     min (max 0 (position_y (heap w this) + dt * velocity_y (heap (Player_update this dt w) this)))
       canvas_size_height"
  using assms
  by (cases "move_x (heap w this) = 0"; cases "move_y (heap w this) = 0";
      cases "action_1 (heap w this)"; cases "1 \<le> accumulator (heap w this) + dt";
      simp add: Player_update_def Projectile_new_heap_other exec
        cong: let_weak_cong prod.case_cong_weak)+

lemma Player_update_clip:
  "\<exists>X. Player_update this dt w =
     modify this (\<lambda>b. b\<lparr>position_y := min (max 0 (position_y b)) canvas_size_height\<rparr>)
       (modify this (\<lambda>b. b\<lparr>position_x := min (max 0 (position_x b)) canvas_size_width\<rparr>) X)"
  unfolding Player_update_def Let_def by (rule exI) (rule refl)

lemma Player_update_bounds:
  "0 \<le> position_x (heap (Player_update this dt w) this)"
  "position_x (heap (Player_update this dt w) this) \<le> canvas_size_width"
  "0 \<le> position_y (heap (Player_update this dt w) this)"
  "position_y (heap (Player_update this dt w) this) \<le> canvas_size_height"
proof -
  obtain X where X: "Player_update this dt w =
     modify this (\<lambda>b. b\<lparr>position_y := min (max 0 (position_y b)) canvas_size_height\<rparr>)
       (modify this (\<lambda>b. b\<lparr>position_x := min (max 0 (position_x b)) canvas_size_width\<rparr>) X)"
    using Player_update_clip by blast
  show "0 \<le> position_x (heap (Player_update this dt w) this)"
    "position_x (heap (Player_update this dt w) this) \<le> canvas_size_width"
    "0 \<le> position_y (heap (Player_update this dt w) this)"
    "position_y (heap (Player_update this dt w) this) \<le> canvas_size_height"
    unfolding X by (simp_all add: modify_def canvas_size_width_def canvas_size_height_def)
qed

subsection \<open>The sample worlds\<close>

lemma new_game_globals:
  "running_id (new_game rnd) = 1"
  "player (new_game rnd) = 0"
  "entities (new_game rnd) = [Some 0]"
  "queued_entities_for_removal (new_game rnd) = []"
  "random_stream (new_game rnd) = rnd"
  "last_time (new_game rnd) = None"
  "loop_count (new_game rnd) = 0"
  "enemy_spawner (new_game rnd) = Some 0"
  "collision_handler (new_game rnd) = Some ()"
  by (simp_all add: new_game_def start_def script_loaded_def Player_new_def exec array_set_def
      cong: let_weak_cong prod.case_cong_weak)

lemma new_game_player:
  "heap (new_game rnd) 0 = Body_fields\<lparr>id' := 0, move_x := 0, move_y := 0, action_1 := False,
     raw_input := {}, speed := 120, accumulator := 0, mobsKilled := 0, lifeTime := 0, mobCount := 0,
     type := Some Player, position_x := 150, position_y := 400, size_width := 11\<rparr>"
  by (simp add: new_game_def start_def script_loaded_def Player_new_def exec array_set_def
      canvas_size_width_def canvas_size_height_def
      cong: let_weak_cong prod.case_cong_weak)

lemma world_at_right_edge_simps:
  "running_id world_at_right_edge = 1"
  "position_x (heap world_at_right_edge 0) = 300"
  "position_y (heap world_at_right_edge 0) = 400"
  "move_x (heap world_at_right_edge 0) = 1"
  "move_y (heap world_at_right_edge 0) = 0"
  "speed (heap world_at_right_edge 0) = 120"
  by (simp_all add: world_at_right_edge_def keydown_def modify_def new_game_globals new_game_player
      pollController_def resetController_def Body_fields_def)

lemma world_diagonal_simps:
  "running_id world_diagonal = 1"
  "move_x (heap world_diagonal 0) = 1"
  "move_y (heap world_diagonal 0) = 1"
  "speed (heap world_diagonal 0) = 120"
  by (simp_all add: world_diagonal_def keydown_def modify_def new_game_globals new_game_player
      pollController_def resetController_def Body_fields_def)

section \<open>Player\<close>

text \<open>
  C8. After \<open>Player.update\<close> the position of the player lies in
  \<open>[0, width] \<times> [0, height]\<close>, and each coordinate is the integrated coordinate
  (old position plus \<open>delta_time\<close> times the new velocity) clamped to that range: below
  0 it is exactly 0, above the bound it is exactly the bound, otherwise it is unchanged.
  The player object must not sit at the address the next \<open>new\<close> will take.
\<close>

theorem Player_update_clamps:
  assumes "this \<noteq> running_id w"
  shows "let w' = Player_update this dt w;
             x = position_x (heap w this) + dt * velocity_x (heap w' this);
             y = position_y (heap w this) + dt * velocity_y (heap w' this)
         in 0 \<le> position_x (heap w' this) \<and> position_x (heap w' this) \<le> canvas_size_width \<and>
            0 \<le> position_y (heap w' this) \<and> position_y (heap w' this) \<le> canvas_size_height \<and>
            position_x (heap w' this) =
              (if x < 0 then 0 else if canvas_size_width < x then canvas_size_width else x) \<and>
            position_y (heap w' this) =
              (if y < 0 then 0 else if canvas_size_height < y then canvas_size_height else y)"
proof -
  have "0 \<le> canvas_size_width" "0 \<le> canvas_size_height"
    by (simp_all add: canvas_size_width_def canvas_size_height_def)
  then show ?thesis
    using Player_update_position [OF assms, of dt] Player_update_bounds [of this dt w]
    unfolding Let_def by (auto simp: min_def max_def)
qed

theorem Player_update_clamps_witness:
  "0 \<noteq> running_id world_at_right_edge \<and>
   position_x (heap world_at_right_edge 0) + (1 / 60) * 120 > canvas_size_width \<and>
   position_x (heap (Player_update 0 (1 / 60) world_at_right_edge) 0) = canvas_size_width"
proof -
  have v: "velocity_x (heap (Player_update 0 (1 / 60) world_at_right_edge) 0) = 120"
    by (simp add: Player_update_velocity world_at_right_edge_simps)
  show ?thesis
    using Player_update_clamps [of 0 world_at_right_edge "1 / 60"]
    by (simp add: Let_def v world_at_right_edge_simps canvas_size_width_def)
qed

lemma SQRT1_2_square: "SQRT1_2 * SQRT1_2 = 1 / 2"
  by (simp add: SQRT1_2_def)

lemma SQRT1_2_pos: "0 < SQRT1_2"
  by (simp add: SQRT1_2_def)

lemma axis_square: "(m::int) \<in> {- 1, 0, 1} \<Longrightarrow> m \<noteq> 0 \<Longrightarrow> (of_int m :: real) * of_int m = 1"
  by auto

lemma pollController_range:
  "move_x (pollController b) \<in> {- 1, 0, 1}" "move_y (pollController b) \<in> {- 1, 0, 1}"
  by (cases "65 \<in> raw_input b"; cases "68 \<in> raw_input b"; cases "83 \<in> raw_input b";
      cases "87 \<in> raw_input b"; cases "32 \<in> raw_input b";
      simp add: pollController_def resetController_def Let_def cong: let_weak_cong)+

text \<open>
  C7. When both controller axes are non-zero, \<open>Player.update\<close> scales both velocity
  components by \<open>Math.SQRT1_2\<close>, and the magnitude of the resulting velocity is the
  speed constant 120; with one non-zero axis the magnitude is 120 as well. The axes range
  over \<open>-1, 0, 1\<close>, which is what \<open>pollController\<close> produces.
\<close>

theorem Player_update_speed:
  assumes "this \<noteq> running_id w"
    and "speed (heap w this) = 120"
    and "move_x (heap w this) \<in> {- 1, 0, 1}"
    and "move_y (heap w this) \<in> {- 1, 0, 1}"
    and "move_x (heap w this) \<noteq> 0 \<or> move_y (heap w this) \<noteq> 0"
  shows "sqrt ((velocity_x (heap (Player_update this dt w) this))\<^sup>2 +
               (velocity_y (heap (Player_update this dt w) this))\<^sup>2) = 120 \<and>
         (if move_x (heap w this) \<noteq> 0 \<and> move_y (heap w this) \<noteq> 0
          then velocity_x (heap (Player_update this dt w) this) =
                 120 * of_int (move_x (heap w this)) * SQRT1_2 \<and>
               velocity_y (heap (Player_update this dt w) this) =
                 120 * of_int (move_y (heap w this)) * SQRT1_2
          else velocity_x (heap (Player_update this dt w) this) = 120 * of_int (move_x (heap w this)) \<and>
               velocity_y (heap (Player_update this dt w) this) = 120 * of_int (move_y (heap w this)))"
proof -
  let ?b = "heap w this"
  let ?vx = "velocity_x (heap (Player_update this dt w) this)"
  let ?vy = "velocity_y (heap (Player_update this dt w) this)"
  have comps: "if move_x ?b \<noteq> 0 \<and> move_y ?b \<noteq> 0
          then ?vx = 120 * of_int (move_x ?b) * SQRT1_2 \<and> ?vy = 120 * of_int (move_y ?b) * SQRT1_2
          else ?vx = 120 * of_int (move_x ?b) \<and> ?vy = 120 * of_int (move_y ?b)"
    using assms(1,2) by (simp add: Player_update_velocity)
  have "?vx\<^sup>2 + ?vy\<^sup>2 = 120\<^sup>2"
  proof (cases "move_x ?b \<noteq> 0 \<and> move_y ?b \<noteq> 0")
    case True
    then have mx: "(of_int (move_x ?b) :: real) * of_int (move_x ?b) = 1"
      and my: "(of_int (move_y ?b) :: real) * of_int (move_y ?b) = 1"
      using assms(3,4) by (simp_all add: axis_square)
    have "?vx\<^sup>2 = 120 * 120 * (of_int (move_x ?b) * of_int (move_x ?b)) * (SQRT1_2 * SQRT1_2)"
      using True comps by (simp add: power2_eq_square)
    moreover have "?vy\<^sup>2 = 120 * 120 * (of_int (move_y ?b) * of_int (move_y ?b)) * (SQRT1_2 * SQRT1_2)"
      using True comps by (simp add: power2_eq_square)
    ultimately show ?thesis
      by (simp add: mx my SQRT1_2_square)
  next
    case False
    then consider "move_x ?b = 0" "move_y ?b \<noteq> 0" | "move_y ?b = 0" "move_x ?b \<noteq> 0"
      using assms(5) by blast
    then show ?thesis
    proof cases
      case 1
      then have "(of_int (move_y ?b) :: real) * of_int (move_y ?b) = 1"
        using assms(4) by (simp add: axis_square)
      then show ?thesis
        using 1 comps by (simp add: power2_eq_square)
    next
      case 2
      then have "(of_int (move_x ?b) :: real) * of_int (move_x ?b) = 1"
        using assms(3) by (simp add: axis_square)
      then show ?thesis
        using 2 comps by (simp add: power2_eq_square)
    qed
  qed
  then have "sqrt (?vx\<^sup>2 + ?vy\<^sup>2) = 120" by simp
  with comps show ?thesis by simp
qed

theorem Player_update_speed_witness:
  "0 \<noteq> running_id world_diagonal \<and> speed (heap world_diagonal 0) = 120 \<and>
   move_x (heap world_diagonal 0) = 1 \<and> move_y (heap world_diagonal 0) = 1 \<and>
   sqrt ((velocity_x (heap (Player_update 0 (1 / 60) world_diagonal) 0))\<^sup>2 +
         (velocity_y (heap (Player_update 0 (1 / 60) world_diagonal) 0))\<^sup>2) = 120 \<and>
   velocity_x (heap (Player_update 0 (1 / 60) world_diagonal) 0) = 120 * SQRT1_2"
proof -
  have *: "sqrt ((velocity_x (heap (Player_update 0 (1 / 60) world_diagonal) 0))\<^sup>2 +
         (velocity_y (heap (Player_update 0 (1 / 60) world_diagonal) 0))\<^sup>2) = 120 \<and>
    (if move_x (heap world_diagonal 0) \<noteq> 0 \<and> move_y (heap world_diagonal 0) \<noteq> 0
     then velocity_x (heap (Player_update 0 (1 / 60) world_diagonal) 0) =
            120 * of_int (move_x (heap world_diagonal 0)) * SQRT1_2 \<and>
          velocity_y (heap (Player_update 0 (1 / 60) world_diagonal) 0) =
            120 * of_int (move_y (heap world_diagonal 0)) * SQRT1_2
     else velocity_x (heap (Player_update 0 (1 / 60) world_diagonal) 0) =
            120 * of_int (move_x (heap world_diagonal 0)) \<and>
          velocity_y (heap (Player_update 0 (1 / 60) world_diagonal) 0) =
            120 * of_int (move_y (heap world_diagonal 0)))"
    by (rule Player_update_speed) (simp_all add: world_diagonal_simps)
  from * have a: "sqrt ((velocity_x (heap (Player_update 0 (1 / 60) world_diagonal) 0))\<^sup>2 +
         (velocity_y (heap (Player_update 0 (1 / 60) world_diagonal) 0))\<^sup>2) = 120"
    by (rule conjunct1)
  from * have b: "velocity_x (heap (Player_update 0 (1 / 60) world_diagonal) 0) = 120 * SQRT1_2"
    by (simp add: world_diagonal_simps)
  show ?thesis
    by (intro conjI a b) (simp_all add: world_diagonal_simps)
qed

section \<open>Projectile\<close>

lemma Projectile_updates:
  "velocity_y (heap ((Projectile_update this dt ^^ n) w) this) =
     velocity_y (heap w this) - of_nat n * acceleration (heap w this) \<and>
   acceleration (heap ((Projectile_update this dt ^^ n) w) this) = acceleration (heap w this)"
  by (induction n) (simp_all add: Projectile_update_fields algebra_simps)

lemma randomInt_0_6:
  assumes "0 \<le> (u::real)" and "u < 1"
  shows "\<lfloor>u * 7\<rfloor> \<in> {0..6}"
proof -
  have "0 \<le> u * 7" "u * 7 < 7" using assms by simp_all
  then have "0 \<le> \<lfloor>u * 7\<rfloor>" "\<lfloor>u * 7\<rfloor> < 7" by linarith+
  then show ?thesis by simp
qed

lemma world_shot_simps:
  "velocity_y (heap world_shot (Suc 0)) = - 100"
  "acceleration (heap world_shot (Suc 0)) = 3"
  "position_x (heap world_shot (Suc 0)) = 150"
  "position_y (heap world_shot (Suc 0)) = 387"
proof -
  have r: "running_id (new_game half_stream) = 1" by (simp add: new_game_globals)
  have f: "\<lfloor>half_stream 0 * 7\<rfloor> = 3" by (simp add: half_stream_def)
  show "velocity_y (heap world_shot (Suc 0)) = - 100"
    using Projectile_new_fields(1) [of "new_game half_stream"]
    by (simp add: world_shot_def r)
  show "acceleration (heap world_shot (Suc 0)) = 3"
    using Projectile_new_fields(3) [of "new_game half_stream"]
    by (simp add: world_shot_def r new_game_globals f)
  show "position_x (heap world_shot (Suc 0)) = 150"
    using Projectile_new_position(1) [of "new_game half_stream"]
    by (simp add: world_shot_def new_game_globals new_game_player)
  show "position_y (heap world_shot (Suc 0)) = 387"
    using Projectile_new_position(2) [of "new_game half_stream"]
    by (simp add: world_shot_def new_game_globals new_game_player Body_fields_def)
qed

text \<open>
  C4, as the code has it. The constructor draws \<open>acceleration\<close> from \<open>0, ..., 6\<close> and sets
  the y-velocity to \<open>-100\<close>; every \<open>Projectile.update\<close> subtracts \<open>acceleration\<close> from the
  y-velocity once. After \<open>n\<close> updates the y-velocity is \<open>-100 - n * acceleration\<close>: the
  projectile keeps moving up and its speed \<open>100 + n * acceleration\<close> grows linearly.
\<close>

theorem Projectile_speed_grows:
  assumes "0 \<le> random_stream w 0" and "random_stream w 0 < 1"
  shows "let this = fst (Projectile_new w); w1 = snd (Projectile_new w);
             a = acceleration (heap w1 this);
             vy = velocity_y (heap ((Projectile_update this dt ^^ n) w1) this)
         in a \<in> of_int ` {0..6} \<and> velocity_y (heap w1 this) = - 100 \<and>
            vy = - 100 - of_nat n * a \<and> \<bar>vy\<bar> = 100 + of_nat n * a"
proof -
  let ?w1 = "snd (Projectile_new w)"
  let ?a = "acceleration (heap ?w1 (running_id w))"
  have a: "?a = of_int \<lfloor>random_stream w 0 * 7\<rfloor>"
    by (simp add: Projectile_new_fields)
  have mem: "\<lfloor>random_stream w 0 * 7\<rfloor> \<in> {0..6}"
    using assms by (rule randomInt_0_6)
  then have a0: "0 \<le> ?a" unfolding a by simp
  have vy: "velocity_y (heap ((Projectile_update (running_id w) dt ^^ n) ?w1) (running_id w)) =
      - 100 - of_nat n * ?a"
    by (simp add: Projectile_updates Projectile_new_fields)
  have "0 \<le> of_nat n * ?a" using a0 by simp
  then have "\<bar>- 100 - of_nat n * ?a\<bar> = 100 + of_nat n * ?a" by linarith
  with vy a mem show ?thesis
    by (simp add: Let_def Projectile_new_fst Projectile_new_fields)
qed

theorem Projectile_speed_grows_witness:
  "0 \<le> random_stream (new_game half_stream) 0 \<and> random_stream (new_game half_stream) 0 < 1 \<and>
   acceleration (heap world_shot 1) = 3 \<and>
   velocity_y (heap ((Projectile_update 1 (1 / 60) ^^ 2) world_shot) 1) = - 106"
proof -
  have h: "0 \<le> random_stream (new_game half_stream) 0" "random_stream (new_game half_stream) 0 < 1"
    by (simp_all add: new_game_globals half_stream_def)
  have "velocity_y (heap ((Projectile_update 1 (1 / 60) ^^ 2) world_shot) 1) =
      - 100 - of_nat 2 * acceleration (heap world_shot 1)"
    using Projectile_speed_grows [OF h, where dt = "1 / 60" and n = 2]
    by (simp add: Let_def Projectile_new_fst new_game_globals world_shot_def)
  with h show ?thesis by (simp add: world_shot_simps)
qed

theorem Projectile_speed_counterexample:
  "\<bar>velocity_y (heap world_shot 1)\<bar> = 100 \<and>
   \<bar>velocity_y (heap (Projectile_update 1 (1 / 60) world_shot) 1)\<bar> = 103 \<and>
   \<not> \<bar>velocity_y (heap (Projectile_update 1 (1 / 60) world_shot) 1)\<bar>
       < \<bar>velocity_y (heap world_shot 1)\<bar>"
  by (simp add: Projectile_update_fields world_shot_simps)

text \<open>
  C6, as the code has it. A projectile is created at the x position of the player and at
  the y position of the player minus the player's full height (\<open>size.height\<close>, not
  \<open>half_size.height\<close>) minus 3.
\<close>

theorem Projectile_new_at_player:
  assumes "player w \<noteq> running_id w"
  shows "let this = fst (Projectile_new w); w1 = snd (Projectile_new w)
         in position_x (heap w1 this) = position_x (heap w (player w)) \<and>
            position_y (heap w1 this) =
              position_y (heap w (player w)) - size_height (heap w (player w)) - 3"
  using assms by (simp add: Let_def Projectile_new_fst Projectile_new_position)

theorem Projectile_new_at_player_witness:
  "player (new_game half_stream) \<noteq> running_id (new_game half_stream) \<and>
   position_x (heap world_shot 1) = position_x (heap (new_game half_stream) 0) \<and>
   position_y (heap world_shot 1) = 400 - 10 - 3"
  using Projectile_new_at_player [of "new_game half_stream"]
  by (simp add: Let_def Projectile_new_fst new_game_globals new_game_player world_shot_def
      Body_fields_def)

theorem Projectile_new_half_height_counterexample:
  "position_y (heap (new_game half_stream) 0) -
     (half_size_height (heap (new_game half_stream) 0) + 3) = 392 \<and>
   position_y (heap world_shot 1) = 387 \<and>
   position_y (heap world_shot 1) \<noteq>
     position_y (heap (new_game half_stream) 0) -
       (half_size_height (heap (new_game half_stream) 0) + 3)"
  by (simp add: world_shot_simps new_game_player half_size_height_def Body_fields_def)

section \<open>Mob\<close>

lemma randomInt_frame:
  "heap (snd (randomInt lo hi w)) = heap w"
  "running_id (snd (randomInt lo hi w)) = running_id w"
  "entities (snd (randomInt lo hi w)) = entities w"
  "queued_entities_for_removal (snd (randomInt lo hi w)) = queued_entities_for_removal w"
  "player (snd (randomInt lo hi w)) = player w"
  "last_time (snd (randomInt lo hi w)) = last_time w"
  "loop_count (snd (randomInt lo hi w)) = loop_count w"
  "enemy_spawner (snd (randomInt lo hi w)) = enemy_spawner w"
  "collision_handler (snd (randomInt lo hi w)) = collision_handler w"
  "random_stream (snd (randomInt lo hi w)) = (\<lambda>n. random_stream w (Suc n))"
  by (simp_all add: randomInt_def Math_random_def)

lemma Mob_new_fields:
  "fst (Mob_new w) = running_id w"
  "velocity_y (heap (snd (Mob_new w)) (running_id w)) = 100"
  "speed (heap (snd (Mob_new w)) (running_id w)) = 100"
  "type (heap (snd (Mob_new w)) (running_id w)) = Some Mob"
  "position_y (heap (snd (Mob_new w)) (running_id w)) = - 12"
  "position_x (heap (snd (Mob_new w)) (running_id w)) =
     of_int \<lfloor>random_stream w 0 * (canvas_size_width - 20 - 20 + 1) + 20\<rfloor>"
  "size_width (heap (snd (Mob_new w)) (running_id w)) = 10"
  "size_height (heap (snd (Mob_new w)) (running_id w)) = 10"
  "id' (heap (snd (Mob_new w)) (running_id w)) = running_id w"
  by (simp_all add: Mob_new_def exec Body_fields_def cong: let_weak_cong prod.case_cong_weak)

lemma Mob_switch_fields:
  "speed (heap (Mob_switch this w) this) = speed (heap w this)"
  "position_y (heap (Mob_switch this w) this) = position_y (heap w this)"
  "velocity_y (heap (Mob_switch this w) this) =
     (if fst (randomInt 1 3 w) = 1 \<or> fst (randomInt 1 3 w) = 2 then speed (heap w this) * SQRT1_2
      else if fst (randomInt 1 3 w) = 3 then speed (heap w this)
      else velocity_y (heap w this))"
  by (cases "fst (randomInt 1 3 w) = 1"; cases "fst (randomInt 1 3 w) = 2";
      cases "fst (randomInt 1 3 w) = 3";
      simp add: Mob_switch_def case_prod_beta modify_def Let_def randomInt_frame
        cong: let_weak_cong)+

lemma Mob_update_tail:
  "\<exists>X. Mob_update this dt w =
         (if switchTime (heap X this) \<le> accumulator (heap X this) then Mob_switch this X else X) \<and>
       speed (heap X this) = speed (heap w this) \<and>
       velocity_y (heap X this) = velocity_y (heap w this) \<and>
       position_y (heap X this) = position_y (heap w this) + dt * velocity_y (heap w this)"
  unfolding Mob_update_def Let_def
  apply (rule exI)
  apply (rule conjI)
   apply (rule refl)
  apply (cases "canvas_size_height + 5 \<le> position_y (heap w this)";
      cases "canvas_size_width - 5 \<le> position_x (heap w this)";
      cases "position_x (heap w this) \<le> 5";
      simp add: modify_def Body_update_def remove_def Let_def cong: let_weak_cong)
  done

lemma Mob_heading_down_pos:
  assumes "Mob_heading_down b"
  shows "100 * SQRT1_2 \<le> velocity_y b" and "0 < velocity_y b"
proof -
  have "SQRT1_2 \<le> 1"
    by (simp add: SQRT1_2_def)
  with assms show "100 * SQRT1_2 \<le> velocity_y b"
    by (auto simp: Mob_heading_down_def)
  then show "0 < velocity_y b"
    using SQRT1_2_pos by (smt (verit) mult_pos_pos)
qed

lemma Mob_new_heading: "Mob_heading_down (heap (snd (Mob_new w)) (fst (Mob_new w)))"
  by (simp add: Mob_heading_down_def Mob_new_fields)

lemma Mob_switch_heading:
  "Mob_heading_down (heap w this) \<Longrightarrow> Mob_heading_down (heap (Mob_switch this w) this)"
  by (auto simp: Mob_heading_down_def Mob_switch_fields)

lemma Mob_update_heading:
  assumes "Mob_heading_down (heap w this)"
  shows "Mob_heading_down (heap (Mob_update this dt w) this)"
    and "position_y (heap (Mob_update this dt w) this) =
           position_y (heap w this) + dt * velocity_y (heap w this)"
proof -
  obtain X where X: "Mob_update this dt w =
         (if switchTime (heap X this) \<le> accumulator (heap X this) then Mob_switch this X else X)"
    and s: "speed (heap X this) = speed (heap w this)"
    and v: "velocity_y (heap X this) = velocity_y (heap w this)"
    and y: "position_y (heap X this) = position_y (heap w this) + dt * velocity_y (heap w this)"
    using Mob_update_tail by blast
  have "Mob_heading_down (heap X this)"
    using assms by (auto simp: Mob_heading_down_def s v)
  then show "Mob_heading_down (heap (Mob_update this dt w) this)"
    by (simp add: X Mob_switch_heading)
  show "position_y (heap (Mob_update this dt w) this) =
           position_y (heap w this) + dt * velocity_y (heap w this)"
    by (simp add: X y Mob_switch_fields)
qed

lemma Mob_updates_descend:
  assumes "Mob_heading_down (heap w this)" and "0 \<le> dt"
  shows "Mob_heading_down (heap ((Mob_update this dt ^^ n) w) this) \<and>
         position_y (heap w this) + of_nat n * (dt * (100 * SQRT1_2))
           \<le> position_y (heap ((Mob_update this dt ^^ n) w) this)"
proof (induction n)
  case 0
  show ?case using assms by simp
next
  case (Suc n)
  let ?w = "(Mob_update this dt ^^ n) w"
  from Suc have h: "Mob_heading_down (heap ?w this)"
    and y: "position_y (heap w this) + of_nat n * (dt * (100 * SQRT1_2)) \<le> position_y (heap ?w this)"
    by simp_all
  have "dt * (100 * SQRT1_2) \<le> dt * velocity_y (heap ?w this)"
    using Mob_heading_down_pos(1) [OF h] assms(2) by (rule mult_left_mono)
  with y have "position_y (heap w this) + of_nat (Suc n) * (dt * (100 * SQRT1_2))
      \<le> position_y (heap ?w this) + dt * velocity_y (heap ?w this)"
    by (simp add: algebra_simps)
  then show ?case
    using Mob_update_heading [OF h, of dt] by simp
qed

text \<open>
  C10. A \<open>Mob\<close> is created heading down (y-velocity 100); \<open>switch\<close> and \<open>update\<close>
  keep it heading down (the y-velocity is \<open>speed\<close> or \<open>speed * Math.SQRT1_2\<close>, both
  strictly positive, and the bounces off the left and right edges write the x-velocity only);
  an update with a positive time step moves it strictly down, and after enough updates its
  y position has reached the bottom boundary \<open>height + 5\<close>.
\<close>

theorem Mob_moves_down:
  assumes "Mob_heading_down (heap w this)" and "0 < dt"
  shows "Mob_heading_down (heap (snd (Mob_new w0)) (fst (Mob_new w0))) \<and>
         velocity_y (heap (snd (Mob_new w0)) (fst (Mob_new w0))) = 100 \<and>
         Mob_heading_down (heap (Mob_switch this w) this) \<and>
         0 < velocity_y (heap (Mob_switch this w) this) \<and>
         Mob_heading_down (heap (Mob_update this dt w) this) \<and>
         0 < velocity_y (heap (Mob_update this dt w) this) \<and>
         position_y (heap w this) < position_y (heap (Mob_update this dt w) this) \<and>
         (\<exists>n. canvas_size_height + 5 \<le> position_y (heap ((Mob_update this dt ^^ n) w) this))"
proof -
  have step: "0 < dt * (100 * SQRT1_2)"
    using assms(2) SQRT1_2_pos by simp
  have "0 < dt * velocity_y (heap w this)"
    using Mob_heading_down_pos(2) [OF assms(1)] assms(2) by simp
  then have down: "position_y (heap w this) < position_y (heap (Mob_update this dt w) this)"
    by (simp add: Mob_update_heading(2) [OF assms(1)])
  obtain n :: nat where "canvas_size_height + 5 - position_y (heap w this)
      < of_nat n * (dt * (100 * SQRT1_2))"
    using step ex_less_of_nat_mult by blast
  then have "canvas_size_height + 5 \<le> position_y (heap ((Mob_update this dt ^^ n) w) this)"
    using Mob_updates_descend [OF assms(1), of dt n] assms(2) by simp
  then have ex: "\<exists>n. canvas_size_height + 5 \<le> position_y (heap ((Mob_update this dt ^^ n) w) this)"
    by blast
  have new: "Mob_heading_down (heap (snd (Mob_new w0)) (fst (Mob_new w0)))"
    by (rule Mob_new_heading)
  have new_vy: "velocity_y (heap (snd (Mob_new w0)) (fst (Mob_new w0))) = 100"
    by (simp add: Mob_new_fields)
  have sw: "Mob_heading_down (heap (Mob_switch this w) this)"
    using assms(1) by (rule Mob_switch_heading)
  have up: "Mob_heading_down (heap (Mob_update this dt w) this)"
    using assms(1) by (rule Mob_update_heading(1))
  show ?thesis
    using new new_vy sw Mob_heading_down_pos(2) [OF sw] up Mob_heading_down_pos(2) [OF up] down ex
    by (intro conjI)
qed

theorem Mob_moves_down_witness:
  "Mob_heading_down (heap world_mob 1) \<and> (0::real) < 1 / 60 \<and>
   0 < velocity_y (heap (Mob_update 1 (1 / 60) world_mob) 1) \<and>
   position_y (heap world_mob 1) = - 12 \<and>
   - 12 < position_y (heap (Mob_update 1 (1 / 60) world_mob) 1)"
proof -
  have h: "Mob_heading_down (heap world_mob 1)"
    using Mob_new_heading [of "new_game half_stream"]
    by (simp add: world_mob_def Mob_new_fields new_game_globals)
  have y: "position_y (heap world_mob 1) = - 12"
    using Mob_new_fields(5) [of "new_game half_stream"]
    by (simp add: world_mob_def new_game_globals)
  show ?thesis
    using Mob_moves_down [OF h, of "1 / 60"] h y by simp
qed

section \<open>Frames\<close>

lemma ids_grow_refl: "ids_grow w w"
  by (simp add: ids_grow_def)

lemma ids_grow_trans:
  assumes "ids_grow w w1" and "ids_grow w1 w2"
  shows "ids_grow w w2"
  unfolding ids_grow_def
proof (intro conjI allI impI)
  show "running_id w \<le> running_id w2"
    using assms by (simp add: ids_grow_def)
next
  fix r assume "r < running_id w"
  then show "id' (heap w2 r) = id' (heap w r)"
    using assms by (simp add: ids_grow_def)
next
  fix r assume r: "running_id w \<le> r \<and> r < running_id w2"
  show "id' (heap w2 r) = r"
  proof (cases "r < running_id w1")
    case True
    then have "id' (heap w2 r) = id' (heap w1 r)" using assms(2) by (simp add: ids_grow_def)
    also have "\<dots> = r" using assms(1) r True by (simp add: ids_grow_def)
    finally show ?thesis .
  next
    case False
    then show ?thesis using assms(2) r by (simp add: ids_grow_def)
  qed
qed

lemma evolves_refl: "evolves A w w"
  by (auto simp: evolves_def ids_grow_refl)

lemma evolves_mono: "evolves A w w' \<Longrightarrow> A \<subseteq> B \<Longrightarrow> evolves B w w'"
  unfolding evolves_def by blast

lemma evolves_trans:
  assumes a: "evolves A w w1" and b: "evolves A w1 w2"
  shows "evolves A w w2"
proof -
  have rid: "running_id w \<le> running_id w1"
    using a by (simp add: evolves_def ids_grow_def)
  have glob: "last_time w2 = last_time w \<and> loop_count w2 = loop_count w \<and> player w2 = player w \<and>
     collision_handler w2 = collision_handler w"
    using a b by (simp add: evolves_def)
  have ids: "ids_grow w w2"
    using a b by (auto simp: evolves_def intro: ids_grow_trans)
  have ty: "\<forall>r<running_id w. type (heap w2 r) = type (heap w r)"
    using a b rid by (simp add: evolves_def)
  obtain q1 q2 where "queued_entities_for_removal w1 = queued_entities_for_removal w @ q1"
    "set q1 \<subseteq> A" "queued_entities_for_removal w2 = queued_entities_for_removal w1 @ q2"
    "set q2 \<subseteq> A"
    using a b unfolding evolves_def by blast
  then have "queued_entities_for_removal w2 = queued_entities_for_removal w @ (q1 @ q2) \<and>
      set (q1 @ q2) \<subseteq> A" by simp
  then have qu: "\<exists>q. queued_entities_for_removal w2 = queued_entities_for_removal w @ q \<and> set q \<subseteq> A"
    by blast
  have en: "length (entities w2) \<le> running_id w2 \<and>
        length (entities w) \<le> length (entities w2) \<and>
        (\<forall>i<length (entities w). entities w2 ! i = entities w ! i) \<and>
        (\<forall>i. length (entities w) \<le> i \<and> i < length (entities w2) \<longrightarrow>
           entities w2 ! i = None \<or> (entities w2 ! i = Some i \<and> running_id w \<le> i))"
    if len: "length (entities w) \<le> running_id w"
  proof -
    from a len have a': "length (entities w1) \<le> running_id w1"
        "length (entities w) \<le> length (entities w1)"
        "\<forall>i<length (entities w). entities w1 ! i = entities w ! i"
        "\<forall>i. length (entities w) \<le> i \<and> i < length (entities w1) \<longrightarrow>
           entities w1 ! i = None \<or> (entities w1 ! i = Some i \<and> running_id w \<le> i)"
      unfolding evolves_def by blast+
    from b a'(1) have b': "length (entities w2) \<le> running_id w2"
        "length (entities w1) \<le> length (entities w2)"
        "\<forall>i<length (entities w1). entities w2 ! i = entities w1 ! i"
        "\<forall>i. length (entities w1) \<le> i \<and> i < length (entities w2) \<longrightarrow>
           entities w2 ! i = None \<or> (entities w2 ! i = Some i \<and> running_id w1 \<le> i)"
      unfolding evolves_def by blast+
    have "entities w2 ! i = None \<or> (entities w2 ! i = Some i \<and> running_id w \<le> i)"
      if i: "length (entities w) \<le> i \<and> i < length (entities w2)" for i
    proof (cases "i < length (entities w1)")
      case True
      then show ?thesis using a'(4) b'(3) i by auto
    next
      case False
      with i have "length (entities w1) \<le> i \<and> i < length (entities w2)" by simp
      with b'(4) have "entities w2 ! i = None \<or> (entities w2 ! i = Some i \<and> running_id w1 \<le> i)"
        by blast
      then show ?thesis using rid by auto
    qed
    then show ?thesis
      using a' b' by auto
  qed
  show ?thesis
    unfolding evolves_def using glob ids ty qu en by blast
qed

lemma evolves_running_id: "evolves A w w' \<Longrightarrow> running_id w \<le> running_id w'"
  by (simp add: evolves_def ids_grow_def)

lemma evolves_id': "evolves A w w' \<Longrightarrow> r < running_id w \<Longrightarrow> id' (heap w' r) = id' (heap w r)"
  by (simp add: evolves_def ids_grow_def)

lemma evolves_type: "evolves A w w' \<Longrightarrow> r < running_id w \<Longrightarrow> type (heap w' r) = type (heap w r)"
  by (simp add: evolves_def)

lemma length_array_set: "length (array_set es i r) = max (length es) (Suc i)"
  by (simp add: array_set_def)

lemma nth_array_set_new:
  "length es \<le> i \<Longrightarrow> j \<le> i \<Longrightarrow>
     array_set es i r ! j = (if j < length es then es ! j else if j = i then Some r else None)"
  by (auto simp: array_set_def nth_append)

lemma evolves_modifyI:
  assumes "evolves A w X" and "\<And>b. id' (f b) = id' b"
    and "running_id w \<le> r \<or> (\<forall>b. type (f b) = type b)"
  shows "evolves A w (modify r f X)"
  using assms unfolding evolves_def ids_grow_def modify_def
  by (simp (no_asm_simp)) (metis leD)

lemma evolves_ifI:
  "evolves A w X \<Longrightarrow> evolves A w Y \<Longrightarrow> evolves A w (if c then X else Y)"
  by simp

lemma evolves_removeI:
  assumes "evolves A w X" and "A = UNIV \<or> (this < running_id w \<and> id' (heap w this) \<in> A)"
  shows "evolves A w (remove this X)"
proof -
  have "id' (heap X this) \<in> A"
    using assms evolves_id' [OF assms(1), of this] by auto
  then have "evolves A X (remove this X)"
    unfolding evolves_def ids_grow_def remove_def by auto
  with assms(1) show ?thesis by (rule evolves_trans)
qed

lemma evolves_randomI:
  "evolves A w X \<Longrightarrow> evolves A w (snd (randomInt lo hi X))"
  unfolding evolves_def ids_grow_def by (simp add: randomInt_frame)

lemma Body_new_simps:
  "fst (Body_new w) = running_id w"
  "running_id (snd (Body_new w)) = Suc (running_id w)"
  "heap (snd (Body_new w)) = (heap w)(running_id w := Body_fields\<lparr>id' := running_id w\<rparr>)"
  "entities (snd (Body_new w)) = array_set (entities w) (running_id w) (running_id w)"
  "queued_entities_for_removal (snd (Body_new w)) = queued_entities_for_removal w"
  "player (snd (Body_new w)) = player w"
  "last_time (snd (Body_new w)) = last_time w"
  "loop_count (snd (Body_new w)) = loop_count w"
  "enemy_spawner (snd (Body_new w)) = enemy_spawner w"
  "collision_handler (snd (Body_new w)) = collision_handler w"
  "random_stream (snd (Body_new w)) = random_stream w"
  by (simp_all add: Body_new_def Let_def)

lemma evolves_Body_new: "evolves A w (snd (Body_new w))"
  unfolding evolves_def ids_grow_def
  by (auto simp: Body_new_simps length_array_set nth_array_set_new)

lemma evolves_Body_newI:
  assumes "evolves A w X"
  shows "evolves A w (snd (Body_new X))"
  using assms evolves_Body_new by (rule evolves_trans)

lemma evolves_Body_updateI: "evolves A w X \<Longrightarrow> evolves A w (Body_update this dt X)"
  unfolding Body_update_def Let_def by (intro evolves_modifyI) simp_all

lemmas evolves_intros = evolves_refl evolves_ifI evolves_modifyI evolves_removeI evolves_randomI
  evolves_Body_newI evolves_Body_updateI

lemma evolves_Projectile_newI:
  assumes "evolves A w X"
  shows "evolves A w (snd (Projectile_new X))"
  unfolding Projectile_new_def Let_def case_prod_beta snd_conv
  using assms evolves_running_id [OF assms]
  by (intro evolves_intros) (simp_all add: Body_new_simps)

lemma evolves_Mob_newI:
  assumes "evolves A w X"
  shows "evolves A w (snd (Mob_new X))"
  unfolding Mob_new_def Let_def case_prod_beta snd_conv
  using assms evolves_running_id [OF assms]
  by (intro evolves_intros) (simp_all add: Body_new_simps)

lemma evolves_Player_update: "evolves A w (Player_update this dt w)"
  unfolding Player_update_def Let_def
  by (intro evolves_intros evolves_Projectile_newI) simp_all

lemma evolves_Projectile_update:
  assumes "A = UNIV \<or> (this < running_id w \<and> id' (heap w this) \<in> A)"
  shows "evolves A w (Projectile_update this dt w)"
  unfolding Projectile_update_def Let_def
  using assms by (intro evolves_intros) simp_all

lemma evolves_Mob_switchI: "evolves A w X \<Longrightarrow> evolves A w (Mob_switch this X)"
  unfolding Mob_switch_def Let_def case_prod_beta
  by (intro evolves_intros) simp_all

lemma evolves_Mob_update:
  assumes "A = UNIV \<or> (this < running_id w \<and> id' (heap w this) \<in> A)"
  shows "evolves A w (Mob_update this dt w)"
  unfolding Mob_update_def Let_def
  using assms by (intro evolves_intros evolves_Mob_switchI) simp_all

lemma evolves_entity_update:
  assumes "A = UNIV \<or> (this < running_id w \<and> id' (heap w this) \<in> A)"
  shows "evolves A w (entity_update dt this w)"
  unfolding entity_update_def
  using assms
  by (auto split: option.split kind.split
      intro: evolves_Player_update evolves_Projectile_update evolves_Mob_update
        evolves_Body_updateI evolves_refl)

lemma evolves_collide:
  assumes "A = UNIV \<or> (rect1 < running_id w \<and> id' (heap w rect1) \<in> A)"
    and "A = UNIV \<or> (rect2 < running_id w \<and> id' (heap w rect2) \<in> A)"
  shows "evolves A w (collide rect1 rect2 w)"
  unfolding collide_def Let_def
  using assms by (intro evolves_intros) simp_all

section \<open>The phases of a tick\<close>

lemma evolves_fold_entity_update:
  assumes "evolves A w X"
    and "A = UNIV \<or> (\<forall>r\<in>set rs. r < running_id w \<and> id' (heap w r) \<in> A)"
  shows "evolves A w (fold (entity_update dt) rs X)"
  using assms
proof (induction rs arbitrary: X)
  case Nil
  then show ?case by simp
next
  case (Cons r rs)
  have "A = UNIV \<or> (r < running_id X \<and> id' (heap X r) \<in> A)"
    using Cons.prems evolves_running_id [OF Cons.prems(1)] evolves_id' [OF Cons.prems(1), of r]
    by auto
  then have "evolves A X (entity_update dt r X)"
    by (rule evolves_entity_update)
  with Cons.prems(1) have "evolves A w (entity_update dt r X)"
    by (rule evolves_trans)
  then have "evolves A w (fold (entity_update dt) rs (entity_update dt r X))"
    using Cons.prems(2) by (intro Cons.IH) auto
  then show ?case by simp
qed

lemma id'_pollController: "id' (pollController b) = id' b"
  by (simp add: pollController_def resetController_def Let_def)

lemma type_pollController: "type (pollController b) = type b"
  by (simp add: pollController_def resetController_def Let_def)

lemma evolves_move_entities:
  assumes "A = UNIV \<or> (\<forall>r\<in>set (Object_values (entities w)). r < running_id w \<and> id' (heap w r) \<in> A)"
  shows "evolves A w (move_entities dt w)"
proof -
  have "evolves A w (modify (player w) pollController w)"
    by (intro evolves_intros) (simp_all add: id'_pollController type_pollController)
  then show ?thesis
    unfolding move_entities_def Let_def
    using assms by (intro evolves_fold_entity_update) (simp_all add: modify_def)
qed

section \<open>The collision scan\<close>

lemma collide_frame:
  "entities (collide rect1 rect2 w) = entities w"
  "player (collide rect1 rect2 w) = player w"
  "running_id (collide rect1 rect2 w) = running_id w"
  "random_stream (collide rect1 rect2 w) = random_stream w"
  "enemy_spawner (collide rect1 rect2 w) = enemy_spawner w"
  "collision_handler (collide rect1 rect2 w) = collision_handler w"
  "last_time (collide rect1 rect2 w) = last_time w"
  "loop_count (collide rect1 rect2 w) = loop_count w"
  by (simp_all add: collide_def Let_def modify_def remove_def)

text \<open>What the overlap test and the kind rules read of a body; the scan never writes it.\<close>

lemma collide_shape:
  "type (heap (collide rect1 rect2 w) r) = type (heap w r)"
  "position_x (heap (collide rect1 rect2 w) r) = position_x (heap w r)"
  "position_y (heap (collide rect1 rect2 w) r) = position_y (heap w r)"
  "size_width (heap (collide rect1 rect2 w) r) = size_width (heap w r)"
  "size_height (heap (collide rect1 rect2 w) r) = size_height (heap w r)"
  "id' (heap (collide rect1 rect2 w) r) = id' (heap w r)"
  by (simp_all add: collide_def Let_def modify_def remove_def)

lemma collide_hits:
  "Player_hits_Mob (collide rect1 rect2 w) = Player_hits_Mob w"
  "Projectile_hits_Mob (collide rect1 rect2 w) = Projectile_hits_Mob w"
  by (intro ext; simp add: Player_hits_Mob_def Projectile_hits_Mob_def overlap_def collide_shape)+

lemma collide_no_hit:
  "\<not> Player_hits_Mob w rect1 rect2 \<Longrightarrow> \<not> Projectile_hits_Mob w rect1 rect2 \<Longrightarrow>
     collide rect1 rect2 w = w"
  by (auto simp: collide_def Player_hits_Mob_def Projectile_hits_Mob_def)

lemma collide_Player_hits_Mob:
  "Player_hits_Mob w rect1 rect2 \<Longrightarrow>
     collide rect1 rect2 w =
       w\<lparr>heap := (heap w)(rect1 := (heap w rect1)\<lparr>health := health (heap w rect1) - 20\<rparr>),
         queued_entities_for_removal := queued_entities_for_removal w @ [id' (heap w rect2)]\<rparr>"
  by (auto simp: collide_def Player_hits_Mob_def modify_def remove_def)

lemma collide_Projectile_hits_Mob:
  "Projectile_hits_Mob w rect1 rect2 \<Longrightarrow>
     collide rect1 rect2 w =
       w\<lparr>heap := (heap w)(player w := (heap w (player w))\<lparr>mobsKilled :=
           mobsKilled (heap w (player w)) + 1\<rparr>),
         queued_entities_for_removal :=
           queued_entities_for_removal w @ [id' (heap w rect2), id' (heap w rect1)]\<rparr>"
  by (auto simp: collide_def Projectile_hits_Mob_def modify_def remove_def Let_def)

lemma hits_exclusive: "Player_hits_Mob w rect1 rect2 \<Longrightarrow> \<not> Projectile_hits_Mob w rect1 rect2"
  by (simp add: Player_hits_Mob_def Projectile_hits_Mob_def)

lemma collide_health:
  "health (heap (collide rect1 rect2 w) r) =
     health (heap w r) - (if r = rect1 \<and> Player_hits_Mob w rect1 rect2 then 20 else 0)"
proof (cases "Player_hits_Mob w rect1 rect2")
  case True
  then show ?thesis by (simp add: collide_Player_hits_Mob)
next
  case False
  then show ?thesis
    by (cases "Projectile_hits_Mob w rect1 rect2")
      (simp_all add: collide_Projectile_hits_Mob collide_no_hit)
qed

lemma collide_mobsKilled:
  "mobsKilled (heap (collide rect1 rect2 w) r) =
     mobsKilled (heap w r) + (if r = player w \<and> Projectile_hits_Mob w rect1 rect2 then 1 else 0)"
proof (cases "Player_hits_Mob w rect1 rect2")
  case True
  then show ?thesis by (simp add: collide_Player_hits_Mob hits_exclusive)
next
  case False
  then show ?thesis
    by (cases "Projectile_hits_Mob w rect1 rect2")
      (simp_all add: collide_Projectile_hits_Mob collide_no_hit)
qed

lemma collide_queue:
  "queued_entities_for_removal (collide rect1 rect2 w) =
     queued_entities_for_removal w @
       (if Player_hits_Mob w rect1 rect2 then [id' (heap w rect2)]
        else if Projectile_hits_Mob w rect1 rect2 then [id' (heap w rect2), id' (heap w rect1)]
        else [])"
proof (cases "Player_hits_Mob w rect1 rect2")
  case True
  then show ?thesis by (simp add: collide_Player_hits_Mob)
next
  case False
  then show ?thesis
    by (cases "Projectile_hits_Mob w rect1 rect2")
      (simp_all add: collide_Projectile_hits_Mob collide_no_hit)
qed

subsection \<open>The scan as one loop over the ordered pairs of live bodies\<close>

lemma Object_values_concat:
  "Object_values es = concat (map (\<lambda>x. case x of None \<Rightarrow> [] | Some r \<Rightarrow> [r]) es)"
  by (induction es rule: Object_values.induct) simp_all

lemma fold_collide_entities:
  "entities (fold (\<lambda>(a, b). collide a b) ps w) = entities w"
  by (induction ps arbitrary: w) (simp_all add: collide_frame split: prod.splits)

lemma fold_inner_step:
  "fold (inner_step rect1) js w =
     fold (collide rect1) (concat (map (\<lambda>j. case entities w ! j of None \<Rightarrow> [] | Some r \<Rightarrow> [r]) js)) w"
proof (induction js arbitrary: w)
  case Nil
  show ?case by simp
next
  case (Cons j js)
  show ?case
  proof (cases "entities w ! j")
    case None
    then have "inner_step rect1 j w = w" by (simp add: inner_step_def)
    then show ?thesis by (simp add: Cons.IH None)
  next
    case (Some r)
    then have "inner_step rect1 j w = collide rect1 r w" by (simp add: inner_step_def)
    then show ?thesis by (simp add: Cons.IH Some collide_frame)
  qed
qed

lemma fold_collide_pairs:
  "fold (collide a) rs w = fold (\<lambda>(a, b). collide a b) (map (Pair a) rs) w"
  by (induction rs arbitrary: w) simp_all

lemma fold_outer_step:
  "fold (outer_step js) is w =
     fold (\<lambda>(a, b). collide a b)
       (List.product (concat (map (\<lambda>i. case entities w ! i of None \<Rightarrow> [] | Some r \<Rightarrow> [r]) is))
          (concat (map (\<lambda>j. case entities w ! j of None \<Rightarrow> [] | Some r \<Rightarrow> [r]) js))) w"
proof (induction "is" arbitrary: w)
  case Nil
  show ?case by simp
next
  case (Cons i "is")
  show ?case
  proof (cases "entities w ! i")
    case None
    then have "outer_step js i w = w" by (simp add: outer_step_def)
    then show ?thesis by (simp add: Cons.IH None)
  next
    case (Some r)
    let ?rs = "concat (map (\<lambda>j. case entities w ! j of None \<Rightarrow> [] | Some r \<Rightarrow> [r]) js)"
    let ?w1 = "fold (\<lambda>(a, b). collide a b) (map (Pair r) ?rs) w"
    have 1: "outer_step js i w = ?w1"
      by (simp add: outer_step_def Some fold_inner_step fold_collide_pairs)
    have 2: "entities ?w1 = entities w"
      by (rule fold_collide_entities)
    show ?thesis
      by (simp add: 1 Cons.IH 2 Some)
  qed
qed

lemma CollissionChecker_update_pairs:
  "CollissionChecker_update w =
     fold (\<lambda>(a, b). collide a b)
       (List.product (Object_values (entities w)) (Object_values (entities w))) w"
proof -
  have "concat (map (\<lambda>i. case entities w ! i of None \<Rightarrow> [] | Some r \<Rightarrow> [r])
      [0 ..< length (entities w)]) = Object_values (entities w)"
    using map_nth [of "entities w"]
    by (metis (no_types, lifting) Object_values_concat map_map o_def map_eq_conv)
  then show ?thesis
    by (simp add: CollissionChecker_update_def scan_def fold_outer_step)
qed

subsection \<open>The effect of a scan\<close>

lemma fold_collide_hits:
  "Player_hits_Mob (fold (\<lambda>(a, b). collide a b) ps w) = Player_hits_Mob w"
  "Projectile_hits_Mob (fold (\<lambda>(a, b). collide a b) ps w) = Projectile_hits_Mob w"
  by (induction ps arbitrary: w; simp add: collide_hits split: prod.splits)+

lemma fold_collide_player:
  "player (fold (\<lambda>(a, b). collide a b) ps w) = player w"
  by (induction ps arbitrary: w) (simp_all add: collide_frame split: prod.splits)

lemma fold_collide_health:
  "health (heap (fold (\<lambda>(a, b). collide a b) ps w) r) =
     health (heap w r) - 20 * int (length (filter (\<lambda>(a, b). a = r \<and> Player_hits_Mob w a b) ps))"
proof (induction ps arbitrary: w)
  case Nil
  show ?case by simp
next
  case (Cons p ps)
  obtain a b where p: "p = (a, b)" by (cases p)
  show ?case
    by (auto simp: p Cons.IH collide_hits collide_health)
qed

lemma fold_collide_mobsKilled:
  "mobsKilled (heap (fold (\<lambda>(a, b). collide a b) ps w) (player w)) =
     mobsKilled (heap w (player w)) + length (filter (\<lambda>(a, b). Projectile_hits_Mob w a b) ps)"
proof (induction ps arbitrary: w)
  case Nil
  show ?case by simp
next
  case (Cons p ps)
  obtain a b where p: "p = (a, b)" by (cases p)
  show ?case
    using Cons.IH [of "collide a b w"]
    by (simp add: p collide_hits collide_mobsKilled collide_frame)
qed

lemma filter_product_fst:
  assumes "distinct xs" and "r \<in> set xs"
  shows "length (filter (\<lambda>(a, b). a = r \<and> P a b) (List.product xs ys)) = length (filter (P r) ys)"
  using assms
proof (induction xs)
  case Nil
  then show ?case by simp
next
  case (Cons x xs)
  have none: "filter (\<lambda>(a, b). a = r \<and> P a b) (List.product zs ys) = []" if "r \<notin> set zs" for zs
    using that by (auto simp: filter_empty_conv)
  show ?case
  proof (cases "x = r")
    case True
    then have "r \<notin> set xs" using Cons.prems by simp
    then show ?thesis
      using True by (simp add: none filter_map o_def)
  next
    case False
    then have "filter (\<lambda>(a, b). a = r \<and> P a b) (map (Pair x) ys) = []"
      by (auto simp: filter_empty_conv)
    then show ?thesis
      using False Cons by simp
  qed
qed

lemma scan_health:
  assumes "distinct (Object_values (entities w))"
    and "this \<in> set (Object_values (entities w))"
  shows "health (heap (CollissionChecker_update w) this) =
           health (heap w this) -
             20 * int (length (filter (Player_hits_Mob w this) (Object_values (entities w))))"
  using filter_product_fst [OF assms, of "Player_hits_Mob w"]
  by (simp add: CollissionChecker_update_pairs fold_collide_health)

lemma scan_mobsKilled:
  "mobsKilled (heap (CollissionChecker_update w) (player w)) =
           mobsKilled (heap w (player w)) +
             length (filter (\<lambda>(rect1, rect2). Projectile_hits_Mob w rect1 rect2)
               (List.product (Object_values (entities w)) (Object_values (entities w))))"
  by (simp add: CollissionChecker_update_pairs fold_collide_mobsKilled)

subsection \<open>A player, a mob and a projectile that overlap\<close>

lemma Mob_new_globals:
  "running_id (snd (Mob_new w)) = Suc (running_id w)"
  "entities (snd (Mob_new w)) = array_set (entities w) (running_id w) (running_id w)"
  "player (snd (Mob_new w)) = player w"
  "queued_entities_for_removal (snd (Mob_new w)) = queued_entities_for_removal w"
  "r \<noteq> running_id w \<Longrightarrow> heap (snd (Mob_new w)) r = heap w r"
  by (simp_all add: Mob_new_def exec cong: let_weak_cong prod.case_cong_weak)

lemma Projectile_new_globals:
  "running_id (snd (Projectile_new w)) = Suc (running_id w)"
  "entities (snd (Projectile_new w)) = array_set (entities w) (running_id w) (running_id w)"
  "player (snd (Projectile_new w)) = player w"
  "queued_entities_for_removal (snd (Projectile_new w)) = queued_entities_for_removal w"
  by (simp_all add: Projectile_new_def exec cong: let_weak_cong prod.case_cong_weak)

lemma world_mob_globals:
  "running_id world_mob = 2"
  "entities world_mob = [Some 0, Some 1]"
  "player world_mob = 0"
  "queued_entities_for_removal world_mob = []"
  by (simp_all add: world_mob_def Mob_new_globals new_game_globals array_set_def)

lemma world_mob_bodies:
  "heap world_mob 0 = heap (new_game half_stream) 0"
  "type (heap world_mob (Suc 0)) = Some Mob"
  "position_x (heap world_mob (Suc 0)) = 150"
  "size_width (heap world_mob (Suc 0)) = 10"
  "size_height (heap world_mob (Suc 0)) = 10"
  "id' (heap world_mob (Suc 0)) = 1"
  using Mob_new_fields [of "new_game half_stream"]
  by (simp_all add: world_mob_def Mob_new_globals new_game_globals half_stream_def
      canvas_size_width_def)

lemma world_collision_globals:
  "entities world_collision = [Some 0, Some 1, Some 2]"
  "player world_collision = 0"
  "queued_entities_for_removal world_collision = []"
  by (simp_all add: world_collision_def Projectile_new_globals modify_def world_mob_globals
      array_set_def)

lemma world_collision_player:
  "type (heap world_collision 0) = Some Player"
  "position_x (heap world_collision 0) = 150"
  "position_y (heap world_collision 0) = 400"
  "size_width (heap world_collision 0) = 11"
  "size_height (heap world_collision 0) = 10"
  "health (heap world_collision 0) = 100"
  "mobsKilled (heap world_collision 0) = 0"
  by (simp_all add: world_collision_def Projectile_new_heap_other modify_def world_mob_globals
      world_mob_bodies new_game_player Body_fields_def)

lemma world_collision_mob:
  "type (heap world_collision (Suc 0)) = Some Mob"
  "position_x (heap world_collision (Suc 0)) = 150"
  "position_y (heap world_collision (Suc 0)) = 395"
  "size_width (heap world_collision (Suc 0)) = 10"
  "size_height (heap world_collision (Suc 0)) = 10"
  "id' (heap world_collision (Suc 0)) = 1"
  by (simp_all add: world_collision_def Projectile_new_heap_other modify_def world_mob_globals
      world_mob_bodies)

lemma world_collision_projectile:
  "type (heap world_collision 2) = Some Projectile"
  "position_x (heap world_collision 2) = 150"
  "position_y (heap world_collision 2) = 387"
  "size_width (heap world_collision 2) = 3"
  "size_height (heap world_collision 2) = 12"
  "id' (heap world_collision 2) = 2"
proof -
  let ?w = "modify 1 (\<lambda>b. b\<lparr>position_y := 395\<rparr>) world_mob"
  have r: "running_id ?w = 2" "player ?w = 0"
    by (simp_all add: modify_def world_mob_globals)
  have p: "position_x (heap ?w 0) = 150" "position_y (heap ?w 0) = 400" "size_height (heap ?w 0) = 10"
    by (simp_all add: modify_def world_mob_bodies new_game_player Body_fields_def)
  show "type (heap world_collision 2) = Some Projectile"
    "size_width (heap world_collision 2) = 3"
    "size_height (heap world_collision 2) = 12"
    "id' (heap world_collision 2) = 2"
    using Projectile_new_fields [of ?w, unfolded r] by (simp_all add: world_collision_def)
  show "position_x (heap world_collision 2) = 150"
    "position_y (heap world_collision 2) = 387"
    using Projectile_new_position [of ?w, unfolded r p] by (simp_all add: world_collision_def)
qed

lemmas world_collision_simps = world_collision_globals world_collision_player
  world_collision_mob world_collision_projectile

lemma world_collision_scan:
  "health (heap (CollissionChecker_update world_collision) 0) = 80"
  "mobsKilled (heap (CollissionChecker_update world_collision) 0) = 1"
proof -
  have "health (heap (CollissionChecker_update world_collision) 0) =
      health (heap world_collision 0) -
        20 * int (length (filter (Player_hits_Mob world_collision 0)
          (Object_values (entities world_collision))))"
    by (rule scan_health) (simp_all add: world_collision_simps)
  then show "health (heap (CollissionChecker_update world_collision) 0) = 80"
    by (simp add: world_collision_simps Player_hits_Mob_def overlap_def)
  show "mobsKilled (heap (CollissionChecker_update world_collision) 0) = 1"
    using scan_mobsKilled [of world_collision]
    by (simp add: world_collision_simps Projectile_hits_Mob_def overlap_def)
qed

text \<open>
  C1, as the code has it. The scan visits both orderings of every pair, but a kind rule
  fires only in the ordering that has the \<open>Player\<close> (or the \<open>Projectile\<close>) first and the
  \<open>Mob\<close> second, so the effect of an overlap is applied once per tick: the player loses
  20 health for each live \<open>Mob\<close> that overlaps it, and the kill count grows by the number
  of ordered pairs of a live \<open>Projectile\<close> and a live \<open>Mob\<close> that overlap. Every body
  is in the registry once.
\<close>

theorem CollissionChecker_update_once:
  assumes "distinct (Object_values (entities w))"
    and "this \<in> set (Object_values (entities w))"
  shows "health (heap (CollissionChecker_update w) this) =
           health (heap w this) -
             20 * int (length (filter (Player_hits_Mob w this) (Object_values (entities w)))) \<and>
         mobsKilled (heap (CollissionChecker_update w) (player w)) =
           mobsKilled (heap w (player w)) +
             length (filter (\<lambda>(rect1, rect2). Projectile_hits_Mob w rect1 rect2)
               (List.product (Object_values (entities w)) (Object_values (entities w))))"
  using assms by (simp add: scan_health scan_mobsKilled)

theorem CollissionChecker_update_once_witness:
  "distinct (Object_values (entities world_collision)) \<and>
   0 \<in> set (Object_values (entities world_collision)) \<and>
   length (filter (Player_hits_Mob world_collision 0) (Object_values (entities world_collision))) = 1 \<and>
   health (heap (CollissionChecker_update world_collision) 0) = health (heap world_collision 0) - 20"
proof -
  have h: "distinct (Object_values (entities world_collision))"
    "0 \<in> set (Object_values (entities world_collision))"
    by (simp_all add: world_collision_simps)
  have n: "length (filter (Player_hits_Mob world_collision 0)
      (Object_values (entities world_collision))) = 1"
    by (simp add: world_collision_simps Player_hits_Mob_def overlap_def)
  show ?thesis
    using CollissionChecker_update_once [OF h] h n by simp
qed

theorem CollissionChecker_update_twice_counterexample:
  "overlap (heap world_collision 0) (heap world_collision 1) \<and>
   overlap (heap world_collision 2) (heap world_collision 1) \<and>
   health (heap world_collision 0) = 100 \<and>
   health (heap (CollissionChecker_update world_collision) 0) = 80 \<and>
   health (heap (CollissionChecker_update world_collision) 0) \<noteq> 100 - 40 \<and>
   mobsKilled (heap world_collision 0) = 0 \<and>
   mobsKilled (heap (CollissionChecker_update world_collision) 0) = 1 \<and>
   mobsKilled (heap (CollissionChecker_update world_collision) 0) \<noteq> 2"
  by (simp add: world_collision_scan world_collision_simps overlap_def)

subsection \<open>Two live bodies\<close>

lemma overlap_sym: "overlap rect1 rect2 \<longleftrightarrow> overlap rect2 rect1"
  by (auto simp: overlap_def)

lemma collide_after_no_hit:
  "\<not> Player_hits_Mob w x y \<Longrightarrow> \<not> Projectile_hits_Mob w x y \<Longrightarrow>
     collide x y (collide u v w) = collide u v w"
  by (rule collide_no_hit) (simp_all add: collide_hits)

lemma same_kind_no_hit:
  assumes "type (heap w x) = type (heap w y)"
  shows "\<not> Player_hits_Mob w x y" and "\<not> Projectile_hits_Mob w x y"
  using assms by (simp_all add: Player_hits_Mob_def Projectile_hits_Mob_def)

lemma scan_two_bodies:
  assumes "Object_values (entities w) = [a, b] \<or> Object_values (entities w) = [b, a]"
  shows "CollissionChecker_update w = collide b a (collide a b w) \<or>
         CollissionChecker_update w = collide a b (collide b a w)"
proof -
  have same: "collide x x W = W" for x W
    by (rule collide_no_hit) (simp_all add: Player_hits_Mob_def Projectile_hits_Mob_def)
  from assms show ?thesis
    by (auto simp: CollissionChecker_update_pairs same)
qed

text \<open>
  A registry whose live bodies are two bodies \<open>a\<close> and \<open>b\<close> that overlap, in either
  registry order: the scan applies the one rule that fits their kinds, once.
\<close>

lemma two_bodies_scan:
  assumes "Object_values (entities w) = [a, b] \<or> Object_values (entities w) = [b, a]"
    and "overlap (heap w a) (heap w b)"
  shows "CollissionChecker_update w =
     (if type (heap w a) = type (heap w b) then w
      else if type (heap w a) = Some Player \<and> type (heap w b) = Some Mob
        then Player_Mob_rule a b w
      else if type (heap w a) = Some Mob \<and> type (heap w b) = Some Player
        then Player_Mob_rule b a w
      else if type (heap w a) = Some Projectile \<and> type (heap w b) = Some Mob
        then Projectile_Mob_rule a b w
      else if type (heap w a) = Some Mob \<and> type (heap w b) = Some Projectile
        then Projectile_Mob_rule b a w
      else w)"
proof -
  let ?ta = "type (heap w a)" and ?tb = "type (heap w b)"
  have ov: "overlap (heap w b) (heap w a)"
    using assms(2) by (simp add: overlap_sym)
  note scan = scan_two_bodies [OF assms(1)]
  have pm: "Player_hits_Mob w x y \<Longrightarrow> collide x y w = Player_Mob_rule x y w" for x y
    by (simp add: collide_Player_hits_Mob Player_Mob_rule_def)
  have jm: "Projectile_hits_Mob w x y \<Longrightarrow> collide x y w = Projectile_Mob_rule x y w" for x y
    by (simp add: collide_Projectile_hits_Mob Projectile_Mob_rule_def)
  consider (same) "?ta = ?tb"
    | (pm_ab) "?ta = Some Player" "?tb = Some Mob"
    | (pm_ba) "?ta = Some Mob" "?tb = Some Player"
    | (jm_ab) "?ta = Some Projectile" "?tb = Some Mob"
    | (jm_ba) "?ta = Some Mob" "?tb = Some Projectile"
    | (other) "?ta \<noteq> ?tb" "\<not> (?ta = Some Player \<and> ?tb = Some Mob)"
        "\<not> (?ta = Some Mob \<and> ?tb = Some Player)"
        "\<not> (?ta = Some Projectile \<and> ?tb = Some Mob)"
        "\<not> (?ta = Some Mob \<and> ?tb = Some Projectile)"
    by blast
  then show ?thesis
  proof cases
    case same
    then have "collide a b w = w" "collide b a w = w"
      by (simp_all add: collide_no_hit same_kind_no_hit)
    then have "collide b a (collide a b w) = w" "collide a b (collide b a w) = w"
      by simp_all
    with scan same show ?thesis by auto
  next
    case pm_ab
    then have hit: "Player_hits_Mob w a b"
      and no: "\<not> Player_hits_Mob w b a" "\<not> Projectile_hits_Mob w b a"
      using assms(2) by (simp_all add: Player_hits_Mob_def Projectile_hits_Mob_def)
    have "collide b a (collide a b w) = collide a b w"
      using no by (rule collide_after_no_hit)
    moreover have "collide b a w = w"
      using no by (rule collide_no_hit)
    ultimately have "collide b a (collide a b w) = Player_Mob_rule a b w"
      "collide a b (collide b a w) = Player_Mob_rule a b w"
      by (simp_all only: pm [OF hit])
    with scan pm_ab show ?thesis by auto
  next
    case pm_ba
    then have hit: "Player_hits_Mob w b a"
      and no: "\<not> Player_hits_Mob w a b" "\<not> Projectile_hits_Mob w a b"
      using ov by (simp_all add: Player_hits_Mob_def Projectile_hits_Mob_def)
    have "collide a b (collide b a w) = collide b a w"
      using no by (rule collide_after_no_hit)
    moreover have "collide a b w = w"
      using no by (rule collide_no_hit)
    ultimately have "collide b a (collide a b w) = Player_Mob_rule b a w"
      "collide a b (collide b a w) = Player_Mob_rule b a w"
      by (simp_all only: pm [OF hit])
    with scan pm_ba show ?thesis by auto
  next
    case jm_ab
    then have hit: "Projectile_hits_Mob w a b"
      and no: "\<not> Player_hits_Mob w b a" "\<not> Projectile_hits_Mob w b a"
      using assms(2) by (simp_all add: Player_hits_Mob_def Projectile_hits_Mob_def)
    have "collide b a (collide a b w) = collide a b w"
      using no by (rule collide_after_no_hit)
    moreover have "collide b a w = w"
      using no by (rule collide_no_hit)
    ultimately have "collide b a (collide a b w) = Projectile_Mob_rule a b w"
      "collide a b (collide b a w) = Projectile_Mob_rule a b w"
      by (simp_all only: jm [OF hit])
    with scan jm_ab show ?thesis by auto
  next
    case jm_ba
    then have hit: "Projectile_hits_Mob w b a"
      and no: "\<not> Player_hits_Mob w a b" "\<not> Projectile_hits_Mob w a b"
      using ov by (simp_all add: Player_hits_Mob_def Projectile_hits_Mob_def)
    have "collide a b (collide b a w) = collide b a w"
      using no by (rule collide_after_no_hit)
    moreover have "collide a b w = w"
      using no by (rule collide_no_hit)
    ultimately have "collide b a (collide a b w) = Projectile_Mob_rule b a w"
      "collide a b (collide b a w) = Projectile_Mob_rule b a w"
      by (simp_all only: jm [OF hit])
    with scan jm_ba show ?thesis by auto
  next
    case other
    then have "\<not> Player_hits_Mob w a b" "\<not> Projectile_hits_Mob w a b"
      "\<not> Player_hits_Mob w b a" "\<not> Projectile_hits_Mob w b a"
      by (auto simp: Player_hits_Mob_def Projectile_hits_Mob_def)
    then have "collide a b w = w" "collide b a w = w"
      by (simp_all add: collide_no_hit)
    then have "collide b a (collide a b w) = w" "collide a b (collide b a w) = w"
      by simp_all
    with scan other show ?thesis by auto
  qed
qed

lemma world_player_mob_simps:
  "entities world_player_mob = [Some 0, Some 1]"
  "queued_entities_for_removal world_player_mob = []"
  "type (heap world_player_mob 0) = Some Player"
  "position_x (heap world_player_mob 0) = 150"
  "position_y (heap world_player_mob 0) = 400"
  "size_width (heap world_player_mob 0) = 11"
  "size_height (heap world_player_mob 0) = 10"
  "health (heap world_player_mob 0) = 100"
  "type (heap world_player_mob (Suc 0)) = Some Mob"
  "position_x (heap world_player_mob (Suc 0)) = 150"
  "position_y (heap world_player_mob (Suc 0)) = 395"
  "size_width (heap world_player_mob (Suc 0)) = 10"
  "size_height (heap world_player_mob (Suc 0)) = 10"
  "id' (heap world_player_mob (Suc 0)) = 1"
  by (simp_all add: world_player_mob_def modify_def world_mob_globals world_mob_bodies
      new_game_player Body_fields_def)

lemma world_projectile_mob_simps:
  "entities world_projectile_mob = [None, Some 1, Some 2]"
  "queued_entities_for_removal world_projectile_mob = []"
  "player world_projectile_mob = 0"
  "heap world_projectile_mob = heap world_collision"
  by (simp_all add: world_projectile_mob_def world_collision_simps array_delete_def)

lemma two_bodies_scan_examples:
  "Object_values (entities world_player_mob) = [0, 1] \<and>
   overlap (heap world_player_mob 0) (heap world_player_mob 1) \<and>
   health (heap (CollissionChecker_update world_player_mob) 0) = 80 \<and>
   queued_entities_for_removal (CollissionChecker_update world_player_mob) = [1] \<and>
   Object_values (entities world_projectile_mob) = [1, 2] \<and>
   overlap (heap world_projectile_mob 2) (heap world_projectile_mob 1) \<and>
   mobsKilled (heap (CollissionChecker_update world_projectile_mob) 0) = 1 \<and>
   queued_entities_for_removal (CollissionChecker_update world_projectile_mob) = [1, 2]"
proof -
  have h1: "Object_values (entities world_player_mob) = [0, 1] \<or>
      Object_values (entities world_player_mob) = [1, 0]"
    "overlap (heap world_player_mob 0) (heap world_player_mob 1)"
    by (simp_all add: world_player_mob_simps overlap_def)
  have h2: "Object_values (entities world_projectile_mob) = [2, 1] \<or>
      Object_values (entities world_projectile_mob) = [1, 2]"
    "overlap (heap world_projectile_mob 2) (heap world_projectile_mob 1)"
    by (simp_all add: world_projectile_mob_simps world_collision_simps overlap_def)
  have 1: "CollissionChecker_update world_player_mob = Player_Mob_rule 0 1 world_player_mob"
    using two_bodies_scan [OF h1] by (simp add: world_player_mob_simps)
  have 2: "CollissionChecker_update world_projectile_mob =
      Projectile_Mob_rule 2 1 world_projectile_mob"
    using two_bodies_scan [OF h2]
    by (simp add: world_projectile_mob_simps world_collision_simps)
  show ?thesis
    using h1(2) h2(2)
    by (simp add: 1 2 Player_Mob_rule_def Projectile_Mob_rule_def world_player_mob_simps
        world_projectile_mob_simps world_collision_simps)
qed

section \<open>A tick\<close>

lemma evolves_fold_collide:
  assumes "evolves A w X"
    and "A = UNIV \<or> (\<forall>r\<in>set (map fst ps) \<union> set (map snd ps). r < running_id w \<and> id' (heap w r) \<in> A)"
  shows "evolves A w (fold (\<lambda>(a, b). collide a b) ps X)"
  using assms
proof (induction ps arbitrary: X)
  case Nil
  then show ?case by simp
next
  case (Cons p ps)
  obtain a b where p: "p = (a, b)" by (cases p)
  have "A = UNIV \<or> (a < running_id X \<and> id' (heap X a) \<in> A)"
    "A = UNIV \<or> (b < running_id X \<and> id' (heap X b) \<in> A)"
    using Cons.prems evolves_running_id [OF Cons.prems(1)] evolves_id' [OF Cons.prems(1)] p
    by auto
  then have "evolves A X (collide a b X)"
    by (rule evolves_collide)
  with Cons.prems(1) have "evolves A w (collide a b X)"
    by (rule evolves_trans)
  then have "evolves A w (fold (\<lambda>(a, b). collide a b) ps (collide a b X))"
    using Cons.prems(2) by (intro Cons.IH) auto
  then show ?case by (simp add: p)
qed

lemma evolves_detect_collisions:
  assumes "A = UNIV \<or> (\<forall>r\<in>set (Object_values (entities w)). r < running_id w \<and> id' (heap w r) \<in> A)"
  shows "evolves A w (detect_collisions w)"
proof (cases "collision_handler w")
  case None
  then show ?thesis by (simp add: detect_collisions_def evolves_refl)
next
  case (Some u)
  have "evolves A w (fold (\<lambda>(a, b). collide a b)
      (List.product (Object_values (entities w)) (Object_values (entities w))) w)"
    using assms by (intro evolves_fold_collide evolves_refl) auto
  then show ?thesis
    by (simp add: detect_collisions_def Some CollissionChecker_update_pairs)
qed

lemma entities_detect_collisions: "entities (detect_collisions w) = entities w"
  by (cases "collision_handler w")
    (simp_all add: detect_collisions_def CollissionChecker_update_pairs fold_collide_entities)

lemma fold_delete:
  "fold (\<lambda>i w. w\<lparr>entities := array_delete (entities w) i\<rparr>) xs w =
     w\<lparr>entities := fold (\<lambda>i es. array_delete es i) xs (entities w)\<rparr>"
  by (induction xs arbitrary: w) simp_all

lemma remove_enemies_eq:
  "remove_enemies w =
     w\<lparr>entities := fold (\<lambda>i es. array_delete es i) (queued_entities_for_removal w) (entities w),
       queued_entities_for_removal := []\<rparr>"
  by (simp add: remove_enemies_def Let_def fold_delete)

lemma evolves_enemy_spawner:
  "evolves A w X \<Longrightarrow> evolves A w (X\<lparr>enemy_spawner := v\<rparr>)"
  by (simp add: evolves_def ids_grow_def)

lemma evolves_spawn_enemies: "evolves A w (spawn_enemies dt w)"
  unfolding spawn_enemies_def Enemy_Spawner_update_def Let_def
  by (auto split: option.split
      intro!: evolves_enemy_spawner evolves_modifyI evolves_Mob_newI evolves_refl)

lemma evolves_draw: "evolves UNIV w (draw w)"
  unfolding draw_def by (intro evolves_intros) simp_all

lemma evolves_Player_newI:
  assumes "evolves A w X"
  shows "evolves A w (snd (Player_new X))"
  unfolding Player_new_def Let_def case_prod_beta snd_conv
  using assms evolves_running_id [OF assms]
  by (intro evolves_intros) (simp_all add: Body_new_simps)

lemma Player_new_simps:
  "fst (Player_new w) = running_id w"
  "running_id (snd (Player_new w)) = Suc (running_id w)"
  "entities (snd (Player_new w)) = array_set (entities w) (running_id w) (running_id w)"
  "id' (heap (snd (Player_new w)) (running_id w)) = running_id w"
  "type (heap (snd (Player_new w)) (running_id w)) = Some Player"
  "r \<noteq> running_id w \<Longrightarrow> heap (snd (Player_new w)) r = heap w r"
  by (simp_all add: Player_new_def exec cong: let_weak_cong prod.case_cong_weak)

lemma start_simps:
  "last_time (start w) = last_time w"
  "loop_count (start w) = loop_count w"
  "running_id (start w) = Suc (running_id w)"
  "player (start w) = running_id w"
  "entities (start w) = array_set [] (running_id w) (running_id w)"
  "queued_entities_for_removal (start w) = []"
  "id' (heap (start w) (running_id w)) = running_id w"
  "r \<noteq> running_id w \<Longrightarrow> heap (start w) r = heap w r"
  by (simp_all add: start_def Player_new_def exec cong: let_weak_cong prod.case_cong_weak)

lemma ids_grow_start: "ids_grow w (start w)"
  unfolding ids_grow_def
proof (intro conjI allI impI)
  show "running_id w \<le> running_id (start w)" by (simp add: start_simps)
next
  fix r assume "r < running_id w"
  then show "id' (heap (start w) r) = id' (heap w r)" by (simp add: start_simps)
next
  fix r assume "running_id w \<le> r \<and> r < running_id (start w)"
  then have "r = running_id w" by (simp add: start_simps)
  then show "id' (heap (start w) r) = r" by (simp add: start_simps)
qed

lemma evolves_ids_grow: "evolves A w w' \<Longrightarrow> ids_grow w w'"
  by (simp add: evolves_def)

lemma evolves_clock:
  "evolves A w w' \<Longrightarrow> last_time w' = last_time w"
  "evolves A w w' \<Longrightarrow> loop_count w' = loop_count w"
  by (simp_all add: evolves_def)

lemma ids_grow_same: "running_id w' = running_id w \<Longrightarrow> heap w' = heap w \<Longrightarrow> ids_grow w w'"
  by (simp add: ids_grow_def)

lemma ids_grow_restart_when_dead: "ids_grow w (restart_when_dead w)"
  by (simp add: restart_when_dead_def ids_grow_start ids_grow_refl)

lemma update_clock:
  "last_time (update dt w) = last_time w"
  "loop_count (update dt w) = loop_count w"
proof -
  let ?w1 = "move_entities dt w"
  let ?w2 = "detect_collisions ?w1"
  let ?w3 = "remove_enemies ?w2"
  let ?w4 = "spawn_enemies dt ?w3"
  have 1: "evolves UNIV w ?w1" by (rule evolves_move_entities) simp
  have 2: "evolves UNIV ?w1 ?w2" by (rule evolves_detect_collisions) simp
  have 4: "evolves UNIV ?w3 ?w4" by (rule evolves_spawn_enemies)
  have "last_time ?w4 = last_time w"
    using evolves_clock(1) [OF 1] evolves_clock(1) [OF 2] evolves_clock(1) [OF 4]
    by (simp add: remove_enemies_eq)
  then show "last_time (update dt w) = last_time w"
    by (simp add: update_def restart_when_dead_def start_simps)
  have "loop_count ?w4 = loop_count w"
    using evolves_clock(2) [OF 1] evolves_clock(2) [OF 2] evolves_clock(2) [OF 4]
    by (simp add: remove_enemies_eq)
  then show "loop_count (update dt w) = loop_count w"
    by (simp add: update_def restart_when_dead_def start_simps)
qed

lemma ids_grow_update: "ids_grow w (update dt w)"
proof -
  let ?w1 = "move_entities dt w"
  let ?w2 = "detect_collisions ?w1"
  let ?w3 = "remove_enemies ?w2"
  let ?w4 = "spawn_enemies dt ?w3"
  have 1: "ids_grow w ?w1" by (rule evolves_ids_grow [of UNIV], rule evolves_move_entities) simp
  have 2: "ids_grow ?w1 ?w2"
    by (rule evolves_ids_grow [of UNIV], rule evolves_detect_collisions) simp
  have 3: "ids_grow ?w2 ?w3" by (rule ids_grow_same) (simp_all add: remove_enemies_eq)
  have 4: "ids_grow ?w3 ?w4" by (rule evolves_ids_grow [of UNIV], rule evolves_spawn_enemies)
  have 5: "ids_grow ?w4 (restart_when_dead ?w4)" by (rule ids_grow_restart_when_dead)
  show ?thesis
    unfolding update_def
    using 1 2 3 4 5 by (blast intro: ids_grow_trans)
qed

lemma draw_clock:
  "last_time (draw w) = last_time w" "loop_count (draw w) = loop_count w"
  using evolves_draw [of w] by (simp_all add: evolves_def)

lemma ids_grow_draw: "ids_grow w (draw w)"
  using evolves_draw by (rule evolves_ids_grow)

section \<open>The fixed-timestep loop\<close>

lemma ticks_step:
  assumes "update_rate_seconds < d"
  shows "ticks d = Suc (ticks (d - update_rate_seconds))"
proof -
  have c: "\<lceil>(d - update_rate_seconds) / update_rate_seconds\<rceil> = \<lceil>d / update_rate_seconds\<rceil> - 1"
    by (simp add: update_rate_seconds_def update_rate_fps_def algebra_simps)
  have "1 < d / update_rate_seconds"
    using assms by (simp add: update_rate_seconds_def update_rate_fps_def)
  then have ge2: "2 \<le> \<lceil>d / update_rate_seconds\<rceil>" by linarith
  show ?thesis
  proof (cases "update_rate_seconds < d - update_rate_seconds")
    case True
    then have "1 < (d - update_rate_seconds) / update_rate_seconds"
      by (simp add: update_rate_seconds_def update_rate_fps_def)
    then have "2 \<le> \<lceil>(d - update_rate_seconds) / update_rate_seconds\<rceil>" by linarith
    then have k: "3 \<le> \<lceil>d / update_rate_seconds\<rceil>" using c by simp
    have "ticks d = nat (\<lceil>d / update_rate_seconds\<rceil> - 1)"
      using assms by (simp add: ticks_def)
    moreover have "ticks (d - update_rate_seconds) = nat (\<lceil>d / update_rate_seconds\<rceil> - 2)"
      using True c by (simp add: ticks_def)
    ultimately show ?thesis
      using k by linarith
  next
    case False
    then have "d / update_rate_seconds \<le> 2"
      by (simp add: update_rate_seconds_def update_rate_fps_def)
    then have "\<lceil>d / update_rate_seconds\<rceil> \<le> 2" by linarith
    with ge2 have "\<lceil>d / update_rate_seconds\<rceil> = 2" by linarith
    then show ?thesis
      using assms False by (simp add: ticks_def)
  qed
qed

lemma loop_while_effect:
  "loop_count (loop_while c d w) = loop_count w + ticks d \<and>
   last_time (loop_while c d w) = (if update_rate_seconds < d then Some c else last_time w) \<and>
   ids_grow w (loop_while c d w)"
proof (induction c d w rule: loop_while.induct)
  case (1 c d w)
  show ?case
  proof (cases "update_rate_seconds < d")
    case False
    then show ?thesis
      by (simp add: loop_while.simps [of c d w] ticks_def ids_grow_refl)
  next
    case True
    let ?w1 = "update update_rate_seconds w"
    let ?w2 = "draw ?w1"
    let ?w4 = "?w2\<lparr>last_time := Some c\<rparr>\<lparr>loop_count := loop_count (?w2\<lparr>last_time := Some c\<rparr>) + 1\<rparr>"
    have unfold: "loop_while c d w = loop_while c (d - update_rate_seconds) ?w4"
      using True by (simp add: loop_while.simps [of c d w] Let_def)
    have IH: "loop_count (loop_while c (d - update_rate_seconds) ?w4) =
        loop_count ?w4 + ticks (d - update_rate_seconds) \<and>
      last_time (loop_while c (d - update_rate_seconds) ?w4) =
        (if update_rate_seconds < d - update_rate_seconds then Some c else last_time ?w4) \<and>
      ids_grow ?w4 (loop_while c (d - update_rate_seconds) ?w4)"
      using "1.IH" [OF True refl refl refl refl refl] by simp
    have count: "loop_count ?w4 = Suc (loop_count w)"
      by (simp add: draw_clock update_clock)
    have "ids_grow w ?w2"
      using ids_grow_update ids_grow_draw by (rule ids_grow_trans)
    moreover have "ids_grow ?w2 ?w4"
      by (rule ids_grow_same) simp_all
    ultimately have "ids_grow w ?w4" by (rule ids_grow_trans)
    then have "ids_grow w (loop_while c (d - update_rate_seconds) ?w4)"
      using IH by (blast intro: ids_grow_trans)
    then show ?thesis
      using IH True count by (simp add: unfold ticks_step [OF True])
  qed
qed

subsection \<open>One callback, and a sequence of events\<close>

lemma loop_effect:
  "loop_count (loop t w) =
     loop_count w + ticks (t / 1000 - (case last_time w of None \<Rightarrow> t / 1000 | Some l \<Rightarrow> l))"
  "last_time (loop t w) =
     (if update_rate_seconds < t / 1000 - (case last_time w of None \<Rightarrow> t / 1000 | Some l \<Rightarrow> l)
      then Some (t / 1000)
      else Some (case last_time w of None \<Rightarrow> t / 1000 | Some l \<Rightarrow> l))"
  "ids_grow w (loop t w)"
proof -
  let ?w = "if last_time w = None then w\<lparr>last_time := Some (t / 1000)\<rparr> else w"
  have l: "loop t w = loop_while (t / 1000) (t / 1000 - the (last_time ?w)) ?w"
    by (simp add: loop_def Let_def)
  have d: "the (last_time ?w) = (case last_time w of None \<Rightarrow> t / 1000 | Some l \<Rightarrow> l)"
    by (cases "last_time w") simp_all
  have lt: "last_time ?w = Some (case last_time w of None \<Rightarrow> t / 1000 | Some l \<Rightarrow> l)"
    by (cases "last_time w") simp_all
  have g: "ids_grow w ?w"
    by (rule ids_grow_same) simp_all
  note e = loop_while_effect [of "t / 1000" "t / 1000 - the (last_time ?w)" ?w]
  show "loop_count (loop t w) =
     loop_count w + ticks (t / 1000 - (case last_time w of None \<Rightarrow> t / 1000 | Some l \<Rightarrow> l))"
    using e unfolding l d by simp
  show "last_time (loop t w) =
     (if update_rate_seconds < t / 1000 - (case last_time w of None \<Rightarrow> t / 1000 | Some l \<Rightarrow> l)
      then Some (t / 1000)
      else Some (case last_time w of None \<Rightarrow> t / 1000 | Some l \<Rightarrow> l))"
    using e unfolding l d lt by simp
  show "ids_grow w (loop t w)"
    using e g unfolding l by (blast intro: ids_grow_trans)
qed

lemma evolves_key:
  "evolves A w (keydown k w)" "evolves A w (keyup k w)"
  unfolding keydown_def keyup_def by (intro evolves_intros; simp)+

lemma dispatch_key_clock:
  "last_time (keydown k w) = last_time w" "loop_count (keydown k w) = loop_count w"
  "last_time (keyup k w) = last_time w" "loop_count (keyup k w) = loop_count w"
  by (simp_all add: keydown_def keyup_def modify_def)

lemma ids_grow_dispatch: "ids_grow w (dispatch ev w)"
  by (cases ev) (simp_all add: loop_effect evolves_ids_grow [OF evolves_key(1)]
      evolves_ids_grow [OF evolves_key(2)])

lemma ids_grow_run: "ids_grow w (run evs w)"
  unfolding run_def
proof (induction evs arbitrary: w)
  case Nil
  show ?case by (simp add: ids_grow_refl)
next
  case (Cons ev evs)
  have "ids_grow w (dispatch ev w)" by (rule ids_grow_dispatch)
  then show ?case
    using Cons.IH [of "dispatch ev w"] by (simp add: ids_grow_trans)
qed

lemma ticks_30ms: "ticks (3 / 100) = 1"
proof -
  have "\<lceil>(9 / 5 :: real)\<rceil> = 2" by linarith
  then show ?thesis
    by (simp add: ticks_def update_rate_seconds_def update_rate_fps_def)
qed

lemma world_first_frame_clock:
  "last_time world_first_frame = Some 0" "loop_count world_first_frame = 0"
  by (simp_all add: world_first_frame_def loop_effect new_game_globals ticks_def
      update_rate_seconds_def update_rate_fps_def)

lemma four_frames_clock:
  "last_time (run four_frames world_first_frame) = Some (3 / 25)"
  "loop_count (run four_frames world_first_frame) = 4"
proof -
  let ?w1 = "loop 30 world_first_frame"
  let ?w2 = "loop 60 ?w1"
  let ?w3 = "loop 90 ?w2"
  let ?w4 = "loop 120 ?w3"
  have s: "update_rate_seconds < 3 / 100"
    by (simp add: update_rate_seconds_def update_rate_fps_def)
  have 1: "last_time ?w1 = Some (3 / 100)" "loop_count ?w1 = 1"
    using s by (simp_all add: loop_effect world_first_frame_clock ticks_30ms)
  have 2: "last_time ?w2 = Some (3 / 50)" "loop_count ?w2 = 2"
    using s by (simp_all add: loop_effect [where t = 60] 1 ticks_30ms)
  have 3: "last_time ?w3 = Some (9 / 100)" "loop_count ?w3 = 3"
    using s by (simp_all add: loop_effect [where t = 90] 2 ticks_30ms)
  have 4: "last_time ?w4 = Some (3 / 25)" "loop_count ?w4 = 4"
    using s by (simp_all add: loop_effect [where t = 120] 3 ticks_30ms)
  have "run four_frames world_first_frame = ?w4"
    by (simp add: four_frames_def run_def)
  with 4 show "last_time (run four_frames world_first_frame) = Some (3 / 25)"
    "loop_count (run four_frames world_first_frame) = 4"
    by simp_all
qed

subsection \<open>The loop in rounded arithmetic\<close>

lemma delta_after_simps:
  "delta_after fsub s d 0 = d"
  "delta_after fsub s d (Suc n) = delta_after fsub s (fsub d s) n"
  unfolding delta_after_def funpow_Suc_right by simp_all

lemma loop_body_clock:
  "loop_count (loop_body s c w) = Suc (loop_count w)"
  "last_time (loop_body s c w) = Some c"
  by (simp_all add: loop_body_def Let_def update_clock draw_clock)

lemma loop_body_funpow_clock:
  "loop_count ((loop_body s c ^^ n) w) = loop_count w + n"
  "last_time ((loop_body s c ^^ n) w) = (if n = 0 then last_time w else Some c)"
  by (induction n) (simp_all add: loop_body_clock)

lemma loop_while_rounded_step:
  "s < d \<Longrightarrow> loop_while_rounded fsub s c d w =
     loop_while_rounded fsub s c (fsub d s) (loop_body s c w)"
  "\<not> s < d \<Longrightarrow> loop_while_rounded fsub s c d w = Some w"
  by (simp_all add: loop_while_rounded.simps [of fsub s c d w] loop_body_def Let_def)

text \<open>
  If the loop returns, it has run its body \<open>n\<close> times, \<open>n\<close> being the first index at which
  the time that remains does not exceed the tick.
\<close>

lemma loop_while_rounded_returns:
  assumes "loop_while_rounded fsub s c d w = Some w'"
  shows "\<exists>n. (\<forall>k<n. s < delta_after fsub s d k) \<and> \<not> s < delta_after fsub s d n \<and>
           w' = (loop_body s c ^^ n) w"
proof (rule loop_while_rounded.raw_induct [where P = "\<lambda>fsub s c d w w'.
    \<exists>n. (\<forall>k<n. s < delta_after fsub s d k) \<and> \<not> s < delta_after fsub s d n \<and>
      w' = (loop_body s c ^^ n) w", OF _ assms], goal_cases)
  case (1 f fsub s c d w w')
  show ?case
  proof (cases "s < d")
    case False
    have "w' = w"
      using 1(2) False by (simp only: if_False option.inject)
    with False have "(\<forall>k<0::nat. s < delta_after fsub s d k) \<and> \<not> s < delta_after fsub s d 0 \<and>
        w' = (loop_body s c ^^ 0) w"
      by (simp add: delta_after_simps)
    then show ?thesis by (rule exI)
  next
    case True
    have "f fsub s c (fsub d s) (loop_body s c w) = Some w'"
      using 1(2) True unfolding loop_body_def Let_def by (simp only: if_True)
    then have "\<exists>n. (\<forall>k<n. s < delta_after fsub s (fsub d s) k) \<and>
        \<not> s < delta_after fsub s (fsub d s) n \<and> w' = (loop_body s c ^^ n) (loop_body s c w)"
      by (rule 1(1))
    then obtain n where n:
      "\<forall>k<n. s < delta_after fsub s (fsub d s) k" "\<not> s < delta_after fsub s (fsub d s) n"
      "w' = (loop_body s c ^^ n) (loop_body s c w)"
      by (elim exE conjE)
    have "\<forall>k<Suc n. s < delta_after fsub s d k"
    proof (intro allI impI)
      fix k assume "k < Suc n"
      then show "s < delta_after fsub s d k"
        using True n(1) by (cases k) (simp_all add: delta_after_simps)
    qed
    moreover have "\<not> s < delta_after fsub s d (Suc n)"
      using n(2) unfolding delta_after_simps .
    moreover have "w' = (loop_body s c ^^ Suc n) w"
      unfolding n(3) funpow_Suc_right by simp
    ultimately have "(\<forall>k<Suc n. s < delta_after fsub s d k) \<and>
        \<not> s < delta_after fsub s d (Suc n) \<and> w' = (loop_body s c ^^ Suc n) w"
      by (intro conjI)
    then show ?thesis by (rule exI)
  qed
qed

text \<open>
  The loop returns when every subtraction from a value up to the initial \<open>delta_time\<close>
  takes at least some \<open>h > 0\<close> off.
\<close>

lemma loop_while_rounded_terminates:
  assumes "0 < h" and "\<forall>d'. s < d' \<and> d' \<le> d0 \<longrightarrow> fsub d' s \<le> d' - h" and "d \<le> d0"
  shows "\<exists>w'. loop_while_rounded fsub s c d w = Some w'"
  using assms(3)
proof (induction "nat \<lceil>(d - s) / h\<rceil>" arbitrary: d w rule: less_induct)
  case less
  show ?case
  proof (cases "s < d")
    case False
    then show ?thesis by (simp add: loop_while_rounded_step)
  next
    case True
    have le: "fsub d s \<le> d - h"
      using assms(2) True less.prems by blast
    then have d0: "fsub d s \<le> d0"
      using assms(1) less.prems by linarith
    have "(fsub d s - s) / h \<le> (d - s) / h - 1"
      using le assms(1) by (simp add: field_simps)
    then have c: "\<lceil>(fsub d s - s) / h\<rceil> \<le> \<lceil>(d - s) / h\<rceil> - 1"
      by (metis ceiling_diff_one ceiling_mono)
    have "0 < (d - s) / h"
      using True assms(1) by simp
    then have "0 < \<lceil>(d - s) / h\<rceil>" by linarith
    with c have "nat \<lceil>(fsub d s - s) / h\<rceil> < nat \<lceil>(d - s) / h\<rceil>" by linarith
    from less.hyps [OF this d0, of "loop_body s c w"] show ?thesis
      using True by (simp add: loop_while_rounded_step)
  qed
qed

text \<open>
  With the exact operations the rounded loop is the loop of the sessions.
\<close>

lemma loop_while_rounded_exact:
  "loop_while_rounded (-) update_rate_seconds c d w = Some (loop_while c d w)"
proof (induction c d w rule: loop_while.induct)
  case (1 c d w)
  show ?case
  proof (cases "update_rate_seconds < d")
    case False
    then show ?thesis
      by (simp add: loop_while.simps [of c d w] loop_while_rounded_step)
  next
    case True
    have "loop_while c d w = loop_while c (d - update_rate_seconds) (loop_body update_rate_seconds c w)"
      using True by (simp add: loop_while.simps [of c d w] loop_body_def Let_def)
    moreover have "loop_while_rounded (-) update_rate_seconds c (d - update_rate_seconds)
        (loop_body update_rate_seconds c w) =
        Some (loop_while c (d - update_rate_seconds) (loop_body update_rate_seconds c w))"
      using "1.IH" [OF True refl refl refl refl refl] by (simp add: loop_body_def Let_def)
    ultimately show ?thesis
      using True by (simp add: loop_while_rounded_step)
  qed
qed

lemma loop_rounded_exact: "loop_rounded (/) (-) t w = Some (loop t w)"
  using loop_while_rounded_exact
  by (simp add: loop_rounded_def loop_def Let_def update_rate_seconds_def)

lemma ids_grow_loop_body: "ids_grow w (loop_body s c w)"
proof -
  let ?w2 = "draw (update s w)"
  have "ids_grow w ?w2"
    using ids_grow_update ids_grow_draw by (rule ids_grow_trans)
  moreover have "ids_grow ?w2 (loop_body s c w)"
    by (rule ids_grow_same) (simp_all add: loop_body_def Let_def)
  ultimately show ?thesis by (rule ids_grow_trans)
qed

lemma ids_grow_loop_body_funpow: "ids_grow w ((loop_body s c ^^ n) w)"
proof (induction n)
  case 0
  show ?case by (simp add: ids_grow_refl)
next
  case (Suc n)
  from Suc ids_grow_loop_body [of "(loop_body s c ^^ n) w" s c] show ?case
    by (simp add: ids_grow_trans)
qed

text \<open>The identities evolve in the rounded loop as they do in the exact one.\<close>

lemma ids_grow_loop_rounded:
  assumes "loop_rounded fdiv fsub t w = Some w'"
  shows "ids_grow w w'"
proof -
  let ?c = "fdiv t 1000"
  let ?s = "fdiv 1 update_rate_fps"
  let ?w1 = "if last_time w = None then w\<lparr>last_time := Some ?c\<rparr> else w"
  from assms have "loop_while_rounded fsub ?s ?c (fsub ?c (the (last_time ?w1))) ?w1 = Some w'"
    by (simp add: loop_rounded_def Let_def)
  from loop_while_rounded_returns [OF this] obtain n
    where "w' = (loop_body ?s ?c ^^ n) ?w1"
    by (elim exE conjE)
  moreover have "ids_grow w ?w1"
    by (rule ids_grow_same) simp_all
  moreover have "ids_grow ?w1 ((loop_body ?s ?c ^^ n) ?w1)"
    by (rule ids_grow_loop_body_funpow)
  ultimately show ?thesis
    by (simp only: ids_grow_trans)
qed

text \<open>The rounding of a real between \<open>2 ^ - n\<close> and \<open>2 ^ (1 - n)\<close>, and the rounding error.\<close>

lemma double_small:
  assumes "1 / 2 ^ n \<le> x" and "x < 2 / 2 ^ n" and "n \<le> 1022"
  shows "double x = of_int (round_ties_even (x * 2 ^ (52 + n))) / 2 ^ (52 + n)"
proof -
  have pos: "0 < x"
    using assms(1) less_le_trans [of 0 "1 / 2 ^ n" x] by simp
  have p: "2 powr (- real n) = 1 / 2 ^ n"
    by (simp add: powr_minus powr_realpow divide_simps)
  have p1: "2 powr (- real n + 1) = 2 / 2 ^ n"
    using powr_add [of 2 "- real n" 1] p by simp
  have "real_of_int (- int n) \<le> log 2 x"
    using pos assms(1) by (simp add: le_log_iff p)
  moreover have "log 2 x < real_of_int (- int n) + 1"
    using pos assms(2) p1 by (simp add: log_less_iff)
  ultimately have "\<lfloor>log 2 \<bar>x\<bar>\<rfloor> = - int n"
    using pos by (simp add: floor_eq_iff)
  then have e: "max (- 1022) \<lfloor>log 2 \<bar>x\<bar>\<rfloor> = - int n"
    using assms(3) by simp
  have q: "2 powr (real_of_int (- int n) - 52) = 1 / 2 ^ (52 + n)"
  proof -
    have "real_of_int (- int n) - 52 = - real (52 + n)" by simp
    then show ?thesis
      by (simp only: powr_minus powr_realpow zero_less_numeral) (simp add: divide_simps)
  qed
  show ?thesis
    using pos unfolding double_def Let_def e q by simp
qed

lemma round_ties_even_le: "real_of_int (round_ties_even r) \<le> r + 1 / 2"
proof -
  have "real_of_int \<lfloor>r\<rfloor> \<le> r" "r < real_of_int \<lfloor>r\<rfloor> + 1" by linarith+
  then show ?thesis
    unfolding round_ties_even_def Let_def by (simp; linarith)
qed

lemma double_le:
  assumes "0 < x"
  shows "double x \<le> x + max (x / 2 ^ 52) (2 powr (- 1074)) / 2"
proof -
  define e where "e = max (- 1022) \<lfloor>log 2 \<bar>x\<bar>\<rfloor>"
  define q where "q = 2 powr (real_of_int e - 52)"
  have q0: "0 < q" by (simp add: q_def)
  have q: "q \<le> max (x / 2 ^ 52) (2 powr (- 1074))"
  proof (cases "- 1022 \<le> \<lfloor>log 2 \<bar>x\<bar>\<rfloor>")
    case True
    then have e: "e = \<lfloor>log 2 x\<rfloor>"
      using assms by (simp add: e_def)
    have "real_of_int e \<le> log 2 x"
      unfolding e by simp
    then have "2 powr real_of_int e \<le> x"
      using assms by (simp add: le_log_iff)
    moreover have "q = 2 powr real_of_int e / 2 ^ 52"
      unfolding q_def by (simp add: powr_diff)
    ultimately have "q \<le> x / 2 ^ 52"
      by (simp add: divide_right_mono)
    then show ?thesis by simp
  next
    case False
    then have "e = - 1022" by (simp add: e_def)
    then have "q = 2 powr (- 1074)" by (simp add: q_def)
    then show ?thesis by simp
  qed
  have "double x = real_of_int (round_ties_even (x / q)) * q"
    using assms by (simp add: double_def Let_def e_def q_def)
  also have "\<dots> \<le> (x / q + 1 / 2) * q"
    using round_ties_even_le [of "x / q"] q0 by (simp only: mult_le_cancel_right_pos)
  also have "\<dots> = x + q / 2"
    using q0 by (simp add: field_simps)
  also have "\<dots> \<le> x + max (x / 2 ^ 52) (2 powr (- 1074)) / 2"
    using q by simp
  finally show ?thesis .
qed

lemma double_sub_decreases:
  assumes "s < d" and "d \<le> 2 ^ 51 * s" and "2 powr (- 1074) \<le> s"
  shows "double_sub d s \<le> d - s / 2"
proof -
  have s: "0 < s"
    using assms(3) less_le_trans [of 0 "2 powr (- 1074)" s] by simp
  define m1 where "m1 = max ((d - s) / 2 ^ 52) (2 powr (- 1074))"
  define m2 where "m2 = max (s / 2) (2 powr (- 1074))"
  have "double (d - s) \<le> (d - s) + m1 / 2"
    unfolding m1_def using assms(1) by (intro double_le) simp
  moreover have "m1 \<le> m2"
    unfolding m1_def m2_def
  proof (rule max.mono)
    have "(d - s) / 2 ^ 52 \<le> d / 2 ^ 52"
      using s by (simp add: divide_right_mono)
    also have "\<dots> \<le> (2 ^ 51 * s) / 2 ^ 52"
      using assms(2) by (intro divide_right_mono) simp_all
    also have "\<dots> = s / 2" by simp
    finally show "(d - s) / 2 ^ 52 \<le> s / 2" .
  qed simp
  moreover have "m2 = s / 2 \<or> m2 = 2 powr (- 1074)"
    unfolding m2_def by (simp add: max_def)
  ultimately show ?thesis
    using assms(3) s unfolding double_sub_def by linarith
qed

lemma doubles:
  "double_div 1 update_rate_fps = 4803839602528529 / 288230376151711744"
  "double_div 0 1000 = 0"
  "double_sub 0 0 = 0"
  "double_div 50 1000 = 3602879701896397 / 72057594037927936"
  "double_sub (3602879701896397 / 72057594037927936) 0 = 3602879701896397 / 72057594037927936"
  "double_sub (3602879701896397 / 72057594037927936) (4803839602528529 / 288230376151711744) = 2401919801264265 / 72057594037927936"
  "double_sub (2401919801264265 / 72057594037927936) (4803839602528529 / 288230376151711744) = 4803839602528531 / 288230376151711744"
  "double_sub (4803839602528531 / 288230376151711744) (4803839602528529 / 288230376151711744) = 1 / 144115188075855872"
  unfolding double_div_def double_sub_def update_rate_fps_def
  by (simp add: double_small [of 6] round_ties_even_def,
      simp add: double_def,
      simp add: double_def,
      simp add: double_small [of 5] round_ties_even_def,
      simp add: double_small [of 5] round_ties_even_def,
      simp add: double_small [of 5] round_ties_even_def,
      simp add: double_small [of 6] round_ties_even_def,
      simp add: double_small [of 57] round_ties_even_def)

lemma doubles_frames:
  "double_div 30 1000 = 1080863910568919 / 36028797018963968"
  "double_div 60 1000 = 1080863910568919 / 18014398509481984"
  "double_div 90 1000 = 3242591731706757 / 36028797018963968"
  "double_div 120 1000 = 1080863910568919 / 9007199254740992"
  "double_sub (1080863910568919 / 36028797018963968) 0 = 1080863910568919 / 36028797018963968"
  "double_sub (1080863910568919 / 18014398509481984) (1080863910568919 / 36028797018963968) = 1080863910568919 / 36028797018963968"
  "double_sub (3242591731706757 / 36028797018963968) (1080863910568919 / 18014398509481984) = 1080863910568919 / 36028797018963968"
  "double_sub (1080863910568919 / 9007199254740992) (3242591731706757 / 36028797018963968) = 1080863910568919 / 36028797018963968"
  "double_sub (1080863910568919 / 36028797018963968) (4803839602528529 / 288230376151711744) = 3843071682022823 / 288230376151711744"
  unfolding double_div_def double_sub_def update_rate_fps_def
  by (simp add: double_small [of 6] round_ties_even_def,
      simp add: double_small [of 5] round_ties_even_def,
      simp add: double_small [of 4] round_ties_even_def,
      simp add: double_small [of 4] round_ties_even_def,
      simp add: double_small [of 6] round_ties_even_def,
      simp add: double_small [of 6] round_ties_even_def,
      simp add: double_small [of 6] round_ties_even_def,
      simp add: double_small [of 6] round_ties_even_def,
      simp add: double_small [of 7] round_ties_even_def)

lemma loop_rounded_one_tick:
  assumes "last_time w = Some l" and "fdiv t 1000 = c" and "fdiv 1 update_rate_fps = s"
    and "fsub c l = d" and "s < d" and "\<not> s < fsub d s"
  shows "loop_rounded fdiv fsub t w = Some (loop_body s c w)"
  using assms by (simp add: loop_rounded_def Let_def loop_while_rounded_step)

text \<open>
  In doubles a callback returns when \<open>delta_time\<close> is at most \<open>2 ^ 51\<close> ticks.
\<close>

lemma loop_rounded_double_returns:
  assumes "double_sub (double_div t 1000) (case last_time w of None \<Rightarrow> double_div t 1000 | Some l \<Rightarrow> l)
      \<le> 2 ^ 51 * double_div 1 update_rate_fps"
  shows "\<exists>w'. loop_rounded double_div double_sub t w = Some w'"
proof -
  let ?c = "double_div t 1000"
  let ?s = "double_div 1 update_rate_fps"
  let ?w1 = "if last_time w = None then w\<lparr>last_time := Some ?c\<rparr> else w"
  let ?d = "double_sub ?c (the (last_time ?w1))"
  have "(2::real) powr (- 1074) \<le> 2 powr (- 6)"
    by (intro powr_mono) simp_all
  also have "\<dots> \<le> ?s"
    by (simp add: doubles powr_minus)
  finally have s: "2 powr (- 1074) \<le> ?s" .
  have d: "?d \<le> 2 ^ 51 * ?s"
    using assms by (cases "last_time w") simp_all
  have "\<forall>d'. ?s < d' \<and> d' \<le> ?d \<longrightarrow> double_sub d' ?s \<le> d' - ?s / 2"
  proof (intro allI impI)
    fix d' assume "?s < d' \<and> d' \<le> ?d"
    with d have "?s < d'" "d' \<le> 2 ^ 51 * ?s" by linarith+
    then show "double_sub d' ?s \<le> d' - ?s / 2"
      using s by (rule double_sub_decreases)
  qed
  moreover have "0 < ?s / 2" by (simp add: doubles)
  ultimately have "\<exists>w'. loop_while_rounded double_sub ?s ?c ?d ?w1 = Some w'"
    by (intro loop_while_rounded_terminates [where h = "?s / 2" and ?d0.0 = ?d]) simp_all
  then show ?thesis
    by (simp add: loop_rounded_def Let_def)
qed

text \<open>
  The number of iterations depends on the rounding. In doubles a callback 50 ms after
  \<open>last_time\<close> runs three ticks; with the exact operations it runs two.
\<close>

lemma loop_rounded_double_50ms:
  "loop_rounded double_div double_sub 50 world_first_frame =
     Some ((loop_body (double_div 1 update_rate_fps) (double_div 50 1000) ^^ 3) world_first_frame) \<and>
   loop_count ((loop_body (double_div 1 update_rate_fps) (double_div 50 1000) ^^ 3) world_first_frame) = 3 \<and>
   loop_count (loop 50 world_first_frame) = 2"
proof -
  let ?w = world_first_frame
  let ?s = "4803839602528529 / 288230376151711744 :: real"
  let ?c = "3602879701896397 / 72057594037927936 :: real"
  have lt: "last_time ?w = Some 0" "loop_count ?w = 0"
    by (rule world_first_frame_clock)+
  have "loop_rounded double_div double_sub 50 ?w = loop_while_rounded double_sub ?s ?c ?c ?w"
    by (simp add: loop_rounded_def Let_def lt doubles)
  also have "\<dots> = loop_while_rounded double_sub ?s ?c (2401919801264265 / 72057594037927936) (loop_body ?s ?c ?w)"
    by (subst loop_while_rounded_step(1)) (simp_all add: doubles)
  also have "\<dots> = loop_while_rounded double_sub ?s ?c (4803839602528531 / 288230376151711744)
      (loop_body ?s ?c (loop_body ?s ?c ?w))"
    by (subst loop_while_rounded_step(1)) (simp_all add: doubles)
  also have "\<dots> = loop_while_rounded double_sub ?s ?c (1 / 144115188075855872)
      (loop_body ?s ?c (loop_body ?s ?c (loop_body ?s ?c ?w)))"
    by (subst loop_while_rounded_step(1)) (simp_all add: doubles)
  also have "\<dots> = Some ((loop_body ?s ?c ^^ 3) ?w)"
    by (subst loop_while_rounded_step(2)) (simp_all add: numeral_3_eq_3)
  finally have 1: "loop_rounded double_div double_sub 50 ?w = Some ((loop_body ?s ?c ^^ 3) ?w)" .
  have 2: "loop_count ((loop_body ?s ?c ^^ 3) ?w) = 3"
    by (simp add: loop_body_funpow_clock lt)
  have "\<lceil>(3 :: real)\<rceil> = 3" by simp
  then have "ticks (1 / 20) = 2"
    by (simp add: ticks_def update_rate_seconds_def update_rate_fps_def)
  then have 3: "loop_count (loop 50 ?w) = 2"
    by (simp add: loop_effect lt)
  from 1 2 3 show ?thesis unfolding doubles by (intro conjI)
qed

text \<open>In doubles the callbacks at 0, 30, 60, 90 and 120 ms run one tick each but the first.\<close>

lemma five_frames_double:
  "\<exists>w'. run_rounded double_div double_sub five_frames (new_game half_stream) = Some w' \<and>
      loop_count w' = 4 \<and> last_time w' = Some (double_div 120 1000)"
proof -
  let ?s = "4803839602528529 / 288230376151711744 :: real"
  let ?c1 = "1080863910568919 / 36028797018963968 :: real"
  let ?c2 = "1080863910568919 / 18014398509481984 :: real"
  let ?c3 = "3242591731706757 / 36028797018963968 :: real"
  let ?c4 = "1080863910568919 / 9007199254740992 :: real"
  let ?w0 = "(new_game half_stream)\<lparr>last_time := Some 0\<rparr>"
  let ?w1 = "loop_body ?s ?c1 ?w0"
  let ?w2 = "loop_body ?s ?c2 ?w1"
  let ?w3 = "loop_body ?s ?c3 ?w2"
  let ?w4 = "loop_body ?s ?c4 ?w3"
  have 0: "loop_rounded double_div double_sub 0 (new_game half_stream) = Some ?w0"
    by (simp add: loop_rounded_def Let_def new_game_globals doubles loop_while_rounded_step)
  have 1: "loop_rounded double_div double_sub 30 ?w0 = Some ?w1"
    by (rule loop_rounded_one_tick [where l = 0 and d = ?c1]) (simp_all add: doubles doubles_frames)
  have 2: "loop_rounded double_div double_sub 60 ?w1 = Some ?w2"
    by (rule loop_rounded_one_tick [where l = ?c1 and d = ?c1])
      (simp_all add: doubles doubles_frames loop_body_clock)
  have 3: "loop_rounded double_div double_sub 90 ?w2 = Some ?w3"
    by (rule loop_rounded_one_tick [where l = ?c2 and d = ?c1])
      (simp_all add: doubles doubles_frames loop_body_clock)
  have 4: "loop_rounded double_div double_sub 120 ?w3 = Some ?w4"
    by (rule loop_rounded_one_tick [where l = ?c3 and d = ?c1])
      (simp_all add: doubles doubles_frames loop_body_clock)
  have "run_rounded double_div double_sub five_frames (new_game half_stream) = Some ?w4"
    by (simp add: five_frames_def 0 1 2 3 4)
  moreover have "loop_count ?w4 = 4"
    by (simp add: loop_body_clock new_game_globals)
  moreover have "last_time ?w4 = Some (double_div 120 1000)"
    by (simp add: loop_body_clock doubles_frames)
  ultimately show ?thesis by blast
qed

lemma delta_after_double:
  "delta_after double_sub (4803839602528529 / 288230376151711744)
     (3602879701896397 / 72057594037927936) 0 = 3602879701896397 / 72057594037927936"
  "delta_after double_sub (4803839602528529 / 288230376151711744)
     (3602879701896397 / 72057594037927936) 1 = 2401919801264265 / 72057594037927936"
  "delta_after double_sub (4803839602528529 / 288230376151711744)
     (3602879701896397 / 72057594037927936) 2 = 4803839602528531 / 288230376151711744"
  "delta_after double_sub (4803839602528529 / 288230376151711744)
     (3602879701896397 / 72057594037927936) 3 = 1 / 144115188075855872"
  by (simp_all add: delta_after_def doubles numeral_2_eq_2 numeral_3_eq_3)

text \<open>
  When the rounded subtraction of the tick leaves \<open>delta_time\<close> as it is, the loop does
  not return.
\<close>

lemma loop_while_rounded_hangs:
  assumes "s < d" and "fsub d s = d"
  shows "loop_while_rounded fsub s c d w = None"
proof -
  have "\<forall>w. loop_while_rounded fsub s c d w = None"
  proof (induction rule: loop_while_rounded.fixp_induct)
    case 1
    show ?case
      by (rule ccpo.admissibleI) (auto simp: fun_lub_def flat_lub_def)
  next
    case 2
    show ?case by simp
  next
    case (3 f)
    then show ?case using assms by (simp add: Let_def)
  qed
  then show ?thesis by blast
qed

text \<open>
  C2, as the code has it, in the arithmetic of doubles, whatever their rounding is. At a
  callback let \<open>delta_time\<close> be the rounded difference of the callback time and
  \<open>last_time\<close>. If the callback returns, it has run the loop body \<open>n\<close> times, each time one
  \<open>update\<close> of one tick and one \<open>draw\<close>, where \<open>n\<close> is the number of times the tick can be
  subtracted from \<open>delta_time\<close>, in the rounded subtraction, while what remains exceeds one
  tick. If \<open>n\<close> is not zero, \<open>last_time\<close> is then the callback time: the time that remains,
  below one tick, is discarded. If \<open>n\<close> is zero, \<open>last_time\<close> keeps its value, and only then
  the elapsed time carries over to the next callback. The callback returns whenever every
  subtraction up to \<open>delta_time\<close> takes at least some fixed positive amount off. So the
  number of ticks is not \<open>\<lfloor>total elapsed / tick\<rfloor>\<close> within one: the callbacks at 0, 30, 60,
  90 and 120 ms run 4 ticks, in exact arithmetic and in doubles, where that quotient is 7.
\<close>

theorem loop_rounded_ticks:
  "let curr_time = fdiv t 1000;
       seconds = fdiv 1 update_rate_fps;
       l = (case last_time w of None \<Rightarrow> curr_time | Some l \<Rightarrow> l);
       delta_time = fsub curr_time l
   in (\<forall>w'. loop_rounded fdiv fsub t w = Some w' \<longrightarrow>
         (\<exists>n. (\<forall>k<n. seconds < delta_after fsub seconds delta_time k) \<and>
              \<not> seconds < delta_after fsub seconds delta_time n \<and>
              w' = (loop_body seconds curr_time ^^ n) (w\<lparr>last_time := Some l\<rparr>) \<and>
              loop_count w' = loop_count w + n \<and>
              last_time w' = Some (if n = 0 then l else curr_time))) \<and>
      ((\<exists>h>0. \<forall>d. seconds < d \<and> d \<le> delta_time \<longrightarrow> fsub d seconds \<le> d - h) \<longrightarrow>
         (\<exists>w'. loop_rounded fdiv fsub t w = Some w'))"
proof -
  define c where "c = fdiv t 1000"
  define s where "s = fdiv 1 update_rate_fps"
  define l where "l = (case last_time w of None \<Rightarrow> c | Some l \<Rightarrow> l)"
  define d where "d = fsub c l"
  define w1 where "w1 = (if last_time w = None then w\<lparr>last_time := Some c\<rparr> else w)"
  have w1: "w1 = w\<lparr>last_time := Some l\<rparr>"
    by (cases "last_time w") (simp_all add: w1_def l_def)
  have tl: "the (last_time w1) = l"
    by (simp add: w1)
  have lr: "loop_rounded fdiv fsub t w = loop_while_rounded fsub s c d w1"
    unfolding loop_rounded_def Let_def c_def [symmetric] s_def [symmetric] w1_def [symmetric]
      tl d_def [symmetric] ..
  have a: "\<exists>n. (\<forall>k<n. s < delta_after fsub s d k) \<and> \<not> s < delta_after fsub s d n \<and>
        w' = (loop_body s c ^^ n) (w\<lparr>last_time := Some l\<rparr>) \<and>
        loop_count w' = loop_count w + n \<and> last_time w' = Some (if n = 0 then l else c)"
    if "loop_rounded fdiv fsub t w = Some w'" for w'
  proof -
    from that have "loop_while_rounded fsub s c d w1 = Some w'" by (simp only: lr)
    from loop_while_rounded_returns [OF this] obtain n where n:
      "\<forall>k<n. s < delta_after fsub s d k" "\<not> s < delta_after fsub s d n"
      "w' = (loop_body s c ^^ n) w1"
      by blast
    have "loop_count w' = loop_count w + n" "last_time w' = Some (if n = 0 then l else c)"
      unfolding n(3) by (simp_all add: loop_body_funpow_clock w1)
    with n show ?thesis unfolding w1 by blast
  qed
  have b: "\<exists>w'. loop_rounded fdiv fsub t w = Some w'"
    if "\<exists>h>0. \<forall>d'. s < d' \<and> d' \<le> d \<longrightarrow> fsub d' s \<le> d' - h"
  proof -
    from that obtain h where "0 < h" "\<forall>d'. s < d' \<and> d' \<le> d \<longrightarrow> fsub d' s \<le> d' - h"
      by blast
    then have "\<exists>w'. loop_while_rounded fsub s c d w1 = Some w'"
      by (rule loop_while_rounded_terminates [where ?d0.0 = d]) simp
    then show ?thesis
      unfolding lr .
  qed
  have "(\<forall>w'. loop_rounded fdiv fsub t w = Some w' \<longrightarrow>
         (\<exists>n. (\<forall>k<n. s < delta_after fsub s d k) \<and>
              \<not> s < delta_after fsub s d n \<and>
              w' = (loop_body s c ^^ n) (w\<lparr>last_time := Some l\<rparr>) \<and>
              loop_count w' = loop_count w + n \<and>
              last_time w' = Some (if n = 0 then l else c))) \<and>
      ((\<exists>h>0. \<forall>d'. s < d' \<and> d' \<le> d \<longrightarrow> fsub d' s \<le> d' - h) \<longrightarrow>
         (\<exists>w'. loop_rounded fdiv fsub t w = Some w'))"
  proof (intro conjI allI impI)
    fix w' assume "loop_rounded fdiv fsub t w = Some w'"
    then show "\<exists>n. (\<forall>k<n. s < delta_after fsub s d k) \<and>
              \<not> s < delta_after fsub s d n \<and>
              w' = (loop_body s c ^^ n) (w\<lparr>last_time := Some l\<rparr>) \<and>
              loop_count w' = loop_count w + n \<and>
              last_time w' = Some (if n = 0 then l else c)"
      by (rule a)
  next
    assume "\<exists>h>0. \<forall>d'. s < d' \<and> d' \<le> d \<longrightarrow> fsub d' s \<le> d' - h"
    then show "\<exists>w'. loop_rounded fdiv fsub t w = Some w'"
      by (rule b)
  qed
  then show ?thesis
    unfolding Let_def c_def [symmetric] s_def [symmetric] l_def [symmetric] d_def [symmetric] .
qed

theorem loop_rounded_ticks_witness:
  "last_time world_first_frame = Some 0 \<and> loop_count world_first_frame = 0 \<and>
   double_div 1 update_rate_fps = 4803839602528529 / 2 ^ 58 \<and>
   double_div 50 1000 = 7205759403792794 / 2 ^ 57 \<and>
   (\<exists>w'. loop_rounded double_div double_sub 50 world_first_frame = Some w' \<and>
      w' = (loop_body (double_div 1 update_rate_fps) (double_div 50 1000) ^^ 3) world_first_frame \<and>
      loop_count w' = 3 \<and> last_time w' = Some (double_div 50 1000))"
proof -
  let ?w = world_first_frame
  let ?s = "4803839602528529 / 288230376151711744 :: real"
  let ?c = "3602879701896397 / 72057594037927936 :: real"
  have lt: "last_time ?w = Some 0" "loop_count ?w = 0"
    by (rule world_first_frame_clock)+
  have w: "?w\<lparr>last_time := Some 0\<rparr> = ?w"
    using lt(1) by (cases ?w) simp
  note th = loop_rounded_ticks [where fdiv = double_div and fsub = double_sub and t = 50
      and w = ?w, unfolded Let_def lt option.case doubles w]
  have "(2::real) powr (- 1074) \<le> 2 powr (- 6)"
    by (intro powr_mono) simp_all
  also have "\<dots> \<le> ?s"
    by (simp add: powr_minus)
  finally have s: "2 powr (- 1074) \<le> ?s" .
  have "\<forall>d. ?s < d \<and> d \<le> ?c \<longrightarrow> double_sub d ?s \<le> d - ?s / 2"
  proof (intro allI impI)
    fix d :: real assume "?s < d \<and> d \<le> ?c"
    then have "?s < d" "d \<le> 2 ^ 51 * ?s" by simp_all
    then show "double_sub d ?s \<le> d - ?s / 2"
      using s by (rule double_sub_decreases)
  qed
  then have "\<exists>h>0. \<forall>d. ?s < d \<and> d \<le> ?c \<longrightarrow> double_sub d ?s \<le> d - h"
    by (intro exI [of _ "?s / 2"] conjI) simp_all
  then have "\<exists>w'. loop_rounded double_div double_sub 50 ?w = Some w'"
    by (rule th [THEN conjunct2, THEN mp])
  then obtain w' where e: "loop_rounded double_div double_sub 50 ?w = Some w'" ..
  from th [THEN conjunct1, rule_format, OF e] obtain n where n:
    "\<forall>k<n. ?s < delta_after double_sub ?s ?c k"
    "\<not> ?s < delta_after double_sub ?s ?c n"
    "w' = (loop_body ?s ?c ^^ n) ?w"
    "loop_count w' = 0 + n"
    "last_time w' = Some (if n = 0 then 0 else ?c)"
    by (elim exE conjE)
  have "n = 3"
  proof (rule ccontr)
    assume "n \<noteq> 3"
    then consider "n = 0" | "n = 1" | "n = 2" | "3 < n" by linarith
    then show False
    proof cases
      case 1
      from n(2) show False unfolding 1 delta_after_double by simp
    next
      case 2
      from n(2) show False unfolding 2 delta_after_double by simp
    next
      case 3
      from n(2) show False unfolding 3 delta_after_double by simp
    next
      case 4
      with n(1) have "?s < delta_after double_sub ?s ?c 3" by blast
      then show False by (simp add: delta_after_double)
    qed
  qed
  with n(3-5) have "w' = (loop_body ?s ?c ^^ 3) ?w" "loop_count w' = 3" "last_time w' = Some ?c"
    by simp_all
  with e have "\<exists>w'. loop_rounded double_div double_sub 50 ?w = Some w' \<and>
      w' = (loop_body ?s ?c ^^ 3) ?w \<and> loop_count w' = 3 \<and> last_time w' = Some ?c"
    by blast
  with lt show ?thesis
    unfolding doubles by simp
qed

theorem loop_ticks_counterexample:
  "run five_frames (new_game half_stream) = run four_frames world_first_frame \<and>
   loop_count (new_game half_stream) = 0 \<and>
   loop_count (run five_frames (new_game half_stream)) = 4 \<and>
   \<lfloor>(120 / 1000 - 0 / 1000) / update_rate_seconds\<rfloor> = 7 \<and>
   \<not> \<bar>int (loop_count (run five_frames (new_game half_stream))) -
       \<lfloor>(120 / 1000 - 0 / 1000) / update_rate_seconds\<rfloor>\<bar> \<le> 1 \<and>
   last_time (loop 30 world_first_frame) = Some (30 / 1000) \<and>
   last_time (loop 30 world_first_frame) \<noteq> Some (0 + update_rate_seconds) \<and>
   (\<exists>w'. run_rounded double_div double_sub five_frames (new_game half_stream) = Some w' \<and>
      loop_count w' = 4 \<and> last_time w' = Some (double_div 120 1000))"
proof -
  have r: "run five_frames (new_game half_stream) = run four_frames world_first_frame"
    by (simp add: five_frames_def four_frames_def run_def world_first_frame_def)
  have f: "\<lfloor>(120 / 1000 - 0 / 1000) / update_rate_seconds\<rfloor> = 7"
  proof -
    have "\<lfloor>(36 / 5 :: real)\<rfloor> = 7" by linarith
    then show ?thesis
      by (simp add: update_rate_seconds_def update_rate_fps_def)
  qed
  have s: "update_rate_seconds < 3 / 100"
    by (simp add: update_rate_seconds_def update_rate_fps_def)
  have l: "last_time (loop 30 world_first_frame) = Some (3 / 100)"
    using s by (simp add: loop_effect world_first_frame_clock)
  have "run five_frames (new_game half_stream) = run four_frames world_first_frame \<and>
   loop_count (new_game half_stream) = 0 \<and>
   loop_count (run five_frames (new_game half_stream)) = 4 \<and>
   \<lfloor>(120 / 1000 - 0 / 1000) / update_rate_seconds\<rfloor> = 7 \<and>
   \<not> \<bar>int (loop_count (run five_frames (new_game half_stream))) -
       \<lfloor>(120 / 1000 - 0 / 1000) / update_rate_seconds\<rfloor>\<bar> \<le> 1 \<and>
   last_time (loop 30 world_first_frame) = Some (30 / 1000) \<and>
   last_time (loop 30 world_first_frame) \<noteq> Some (0 + update_rate_seconds)"
    unfolding r f four_frames_clock l
    by (simp add: new_game_globals update_rate_seconds_def update_rate_fps_def)
  with five_frames_double show ?thesis
    by (elim conjE) (intro conjI; assumption)
qed

section \<open>Identities\<close>

lemma ids_grow_unique:
  assumes "ids_grow w w'" and "\<forall>r<running_id w. id' (heap w r) = r"
  shows "\<forall>r<running_id w'. id' (heap w' r) = r"
proof (intro allI impI)
  fix r assume r: "r < running_id w'"
  show "id' (heap w' r) = r"
  proof (cases "r < running_id w")
    case True
    then show ?thesis using assms by (simp add: ids_grow_def)
  next
    case False
    then show ?thesis using assms(1) r by (simp add: ids_grow_def)
  qed
qed

text \<open>
  C9. The \<open>Body\<close> constructor gives the new body the current value of \<open>running_id\<close> and
  increments the counter; \<open>start()\<close> takes the next value for the new player and does not
  reset the counter; and over \<open>start()\<close>, a tick and any sequence of animation frames and
  key events (restarts included) the counter never decreases, the bodies that exist keep
  their identity, and each body created in between carries its own counter value. So
  identities are handed out in strictly increasing order and are never used twice.
\<close>

theorem identities_never_reused:
  "fst (Body_new w) = running_id w \<and>
   id' (heap (snd (Body_new w)) (fst (Body_new w))) = running_id w \<and>
   running_id (snd (Body_new w)) = running_id w + 1 \<and>
   running_id (start w) = running_id w + 1 \<and>
   id' (heap (start w) (player (start w))) = running_id w \<and>
   ids_grow w (start w) \<and> ids_grow w (update dt w) \<and> ids_grow w (run evs w) \<and>
   ((\<forall>r<running_id w. id' (heap w r) = r) \<longrightarrow>
      (\<forall>r<running_id (run evs w). id' (heap (run evs w) r) = r))"
  using ids_grow_unique [OF ids_grow_run, of w evs]
  by (simp add: Body_new_simps start_simps ids_grow_start ids_grow_update ids_grow_run)

theorem identities_never_reused_witness:
  "running_id (new_game half_stream) = 1 \<and> id' (heap (new_game half_stream) 0) = 0 \<and>
   running_id (start (new_game half_stream)) = 2 \<and>
   id' (heap (start (new_game half_stream)) (player (start (new_game half_stream)))) = 1 \<and>
   id' (heap (start (new_game half_stream)) 0) = 0 \<and>
   1 \<le> running_id (run key_and_frames (new_game half_stream)) \<and>
   id' (heap (run key_and_frames (new_game half_stream)) 0) = 0"
proof -
  let ?w = "new_game half_stream"
  note th = identities_never_reused [of ?w "1 / 60" key_and_frames]
  have w: "running_id ?w = 1" "id' (heap ?w 0) = 0"
    by (simp_all add: new_game_globals new_game_player)
  then have u: "\<forall>r<running_id ?w. id' (heap ?w r) = r" by simp
  have s: "running_id (start ?w) = 2" "id' (heap (start ?w) (player (start ?w))) = 1"
    using th w by simp_all
  have "ids_grow ?w (start ?w)" using th by simp
  then have s0: "id' (heap (start ?w) 0) = 0"
    using w by (simp add: ids_grow_def)
  have g: "ids_grow ?w (run key_and_frames ?w)" using th by simp
  then have r: "1 \<le> running_id (run key_and_frames ?w)"
    using w by (simp add: ids_grow_def)
  have "\<forall>r<running_id (run key_and_frames ?w). id' (heap (run key_and_frames ?w) r) = r"
    using th u by blast
  then have r0: "id' (heap (run key_and_frames ?w) 0) = 0"
    using r by simp
  show ?thesis
    using w s s0 r r0 by simp
qed

section \<open>Deferred removal\<close>

lemma Object_values_mem: "r \<in> set (Object_values es) \<longleftrightarrow> Some r \<in> set es"
  by (induction es rule: Object_values.induct) auto

lemma registry_refs:
  assumes "registry_ok w" and "r \<in> set (Object_values (entities w))"
  shows "r < running_id w" and "present (entities w) (id' (heap w r))"
proof -
  from assms(2) have "Some r \<in> set (entities w)"
    by (simp add: Object_values_mem)
  then obtain i where i: "i < length (entities w)" "entities w ! i = Some r"
    by (auto simp: in_set_conv_nth)
  with assms(1) have "r < running_id w \<and> id' (heap w r) = i"
    by (simp add: registry_ok_def)
  with i show "r < running_id w" "present (entities w) (id' (heap w r))"
    by (simp_all add: present_def)
qed

lemma registry_ok_evolves:
  assumes ok: "registry_ok w" and ev: "evolves A w w'"
  shows "registry_ok w'"
    and "length (entities w) \<le> length (entities w')"
    and "\<forall>i<length (entities w). entities w' ! i = entities w ! i"
proof -
  have len: "length (entities w) \<le> running_id w"
    using ok by (simp add: registry_ok_def)
  with ev have e: "length (entities w') \<le> running_id w'"
    "length (entities w) \<le> length (entities w')"
    "\<forall>i<length (entities w). entities w' ! i = entities w ! i"
    "\<forall>i. length (entities w) \<le> i \<and> i < length (entities w') \<longrightarrow>
       entities w' ! i = None \<or> (entities w' ! i = Some i \<and> running_id w \<le> i)"
    unfolding evolves_def by blast+
  have g: "ids_grow w w'" using ev by (rule evolves_ids_grow)
  show "length (entities w) \<le> length (entities w')" by (rule e(2))
  show "\<forall>i<length (entities w). entities w' ! i = entities w ! i" by (rule e(3))
  have "r < running_id w' \<and> id' (heap w' r) = i"
    if i: "i < length (entities w')" and r: "entities w' ! i = Some r" for i r
  proof (cases "i < length (entities w)")
    case True
    then have "entities w ! i = Some r" using e(3) r by simp
    with ok True have "r < running_id w" "id' (heap w r) = i"
      by (simp_all add: registry_ok_def)
    then show ?thesis
      using g by (simp add: ids_grow_def)
  next
    case False
    with i have "length (entities w) \<le> i \<and> i < length (entities w')" by simp
    with e(4) have "entities w' ! i = None \<or> (entities w' ! i = Some i \<and> running_id w \<le> i)"
      by blast
    with r have "r = i" "running_id w \<le> i" by auto
    moreover have "i < running_id w'" using i e(1) by simp
    ultimately show ?thesis
      using g by (simp add: ids_grow_def)
  qed
  with e(1) show "registry_ok w'"
    by (simp add: registry_ok_def)
qed

lemma present_evolves:
  assumes "registry_ok w" and "evolves A w w'" and "present (entities w) x"
  shows "present (entities w') x"
  using registry_ok_evolves(2,3) [OF assms(1,2)] assms(3)
  by (simp add: present_def)

lemma array_delete_simps:
  "length (array_delete es x) = length es"
  "j < length es \<Longrightarrow> array_delete es x ! j = (if j = x then None else es ! j)"
  by (auto simp: array_delete_def nth_list_update)

lemma fold_array_delete_length:
  "length (fold (\<lambda>i es. array_delete es i) xs es) = length es"
  by (induction xs arbitrary: es) (simp_all add: array_delete_simps)

lemma fold_array_delete_nth:
  "j < length es \<Longrightarrow>
     fold (\<lambda>i es. array_delete es i) xs es ! j = (if j \<in> set xs then None else es ! j)"
proof (induction xs arbitrary: es)
  case Nil
  show ?case by simp
next
  case (Cons x xs)
  have "fold (\<lambda>i es. array_delete es i) xs (array_delete es x) ! j =
      (if j \<in> set xs then None else array_delete es x ! j)"
    using Cons.prems by (intro Cons.IH) (simp add: array_delete_simps)
  then show ?case
    using Cons.prems by (simp add: array_delete_simps)
qed

lemma scan_entities: "entities (scan is js w) = entities w"
  by (simp add: scan_def fold_outer_step fold_collide_entities)

lemma evolves_move_entities_present:
  assumes "registry_ok w"
  shows "evolves {x. present (entities w) x} w (move_entities dt w)"
  using registry_refs [OF assms] by (intro evolves_move_entities) simp

lemma evolves_detect_collisions_present:
  assumes "registry_ok w"
  shows "evolves {x. present (entities w) x} w (detect_collisions w)"
  using registry_refs [OF assms] by (intro evolves_detect_collisions) simp

lemma evolves_queue:
  "evolves A w w' \<Longrightarrow>
     \<exists>q. queued_entities_for_removal w' = queued_entities_for_removal w @ q \<and> set q \<subseteq> A"
  by (simp add: evolves_def)

lemma queued_in_tick_present:
  assumes ok: "registry_ok w"
    and x: "x \<in> set (drop (length (queued_entities_for_removal w))
        (queued_entities_for_removal (detect_collisions (move_entities dt w))))"
  shows "present (entities (move_entities dt w)) x"
proof -
  let ?w1 = "move_entities dt w"
  let ?w2 = "detect_collisions ?w1"
  have 1: "evolves {x. present (entities w) x} w ?w1"
    using ok by (rule evolves_move_entities_present)
  have ok1: "registry_ok ?w1"
    using ok 1 by (rule registry_ok_evolves(1))
  have 2: "evolves {x. present (entities ?w1) x} ?w1 ?w2"
    using ok1 by (rule evolves_detect_collisions_present)
  obtain q1 where q1: "queued_entities_for_removal ?w1 = queued_entities_for_removal w @ q1"
    "set q1 \<subseteq> {x. present (entities w) x}"
    using evolves_queue [OF 1] by blast
  obtain q2 where q2: "queued_entities_for_removal ?w2 = queued_entities_for_removal ?w1 @ q2"
    "set q2 \<subseteq> {x. present (entities ?w1) x}"
    using evolves_queue [OF 2] by blast
  have "drop (length (queued_entities_for_removal w)) (queued_entities_for_removal ?w2) = q1 @ q2"
    by (simp add: q1 q2)
  with x have "x \<in> set q1 \<or> x \<in> set q2" by simp
  then show ?thesis
  proof
    assume "x \<in> set q1"
    with q1(2) have "present (entities w) x" by blast
    with ok 1 show ?thesis by (rule present_evolves)
  next
    assume "x \<in> set q2"
    with q2(2) show ?thesis by blast
  qed
qed

lemma not_present_start:
  assumes "x < running_id w"
  shows "\<not> present (entities (start w)) x"
  using assms nth_array_set_new [of "[]" "running_id w" x "running_id w"]
  by (simp add: present_def start_simps)

lemma purged_after_update:
  assumes ok: "registry_ok w"
    and x: "x \<in> set (queued_entities_for_removal (detect_collisions (move_entities dt w)))"
    and p: "present (entities (move_entities dt w)) x"
  shows "\<not> present (entities (update dt w)) x"
proof -
  let ?w1 = "move_entities dt w"
  let ?w2 = "detect_collisions ?w1"
  let ?w3 = "remove_enemies ?w2"
  let ?w4 = "spawn_enemies dt ?w3"
  have 1: "evolves {x. present (entities w) x} w ?w1"
    using ok by (rule evolves_move_entities_present)
  have ok1: "registry_ok ?w1"
    using ok 1 by (rule registry_ok_evolves(1))
  have e2: "entities ?w2 = entities ?w1"
    by (rule entities_detect_collisions)
  have r2: "running_id ?w1 \<le> running_id ?w2"
    by (rule evolves_running_id [of UNIV], rule evolves_detect_collisions) simp
  have xl: "x < length (entities ?w2)"
    using p by (simp add: present_def e2)
  have len1: "length (entities ?w1) \<le> running_id ?w1"
    using ok1 by (simp add: registry_ok_def)
  have e3: "entities ?w3 ! x = None" "length (entities ?w3) = length (entities ?w2)"
    "running_id ?w3 = running_id ?w2"
    using x xl by (simp_all add: remove_enemies_eq fold_array_delete_nth fold_array_delete_length)
  have len3: "length (entities ?w3) \<le> running_id ?w3"
    using len1 r2 by (simp add: e3 e2)
  have 4: "evolves UNIV ?w3 ?w4" by (rule evolves_spawn_enemies)
  with len3 have "\<forall>i<length (entities ?w3). entities ?w4 ! i = entities ?w3 ! i"
    unfolding evolves_def by blast
  then have e4: "entities ?w4 ! x = None"
    using xl e3 by simp
  have r4: "x < running_id ?w4"
    using xl len3 evolves_running_id [OF 4] by (simp add: e3)
  show ?thesis
  proof (cases "isDead (heap ?w4 (player ?w4)) \<and> action_1 (heap ?w4 (player ?w4))")
    case True
    then have "restart_when_dead ?w4 = start ?w4"
      unfolding restart_when_dead_def by (rule if_P)
    then have "update dt w = start ?w4"
      by (simp add: update_def)
    then show ?thesis using r4 by (simp add: not_present_start)
  next
    case False
    then have "restart_when_dead ?w4 = ?w4"
      unfolding restart_when_dead_def by (rule if_not_P)
    then have "update dt w = ?w4"
      by (simp add: update_def)
    then show ?thesis using e4 by (simp add: present_def)
  qed
qed

lemma entities_draw: "entities (draw w) = entities w"
  by (simp add: draw_def remove_def)

subsection \<open>The registry invariant holds in every state of a session\<close>

lemma registry_ok_start: "registry_ok (start w)"
  unfolding registry_ok_def
proof (intro conjI allI impI)
  show "length (entities (start w)) \<le> running_id (start w)"
    by (simp add: start_simps length_array_set)
next
  fix i r
  assume i: "i < length (entities (start w))" and r: "entities (start w) ! i = Some r"
  from i have "i \<le> running_id w" by (simp add: start_simps length_array_set)
  with r have "r = running_id w \<and> i = running_id w"
    using nth_array_set_new [of "[]" "running_id w" i "running_id w"]
    by (auto simp: start_simps split: if_splits)
  then show "r < running_id (start w)" "id' (heap (start w) r) = i"
    by (simp_all add: start_simps)
qed

lemma registry_ok_remove_enemies:
  assumes "registry_ok w"
  shows "registry_ok (remove_enemies w)"
  using assms
  by (auto simp: registry_ok_def remove_enemies_eq fold_array_delete_length fold_array_delete_nth
      split: if_splits)

lemma registry_ok_update:
  assumes "registry_ok w"
  shows "registry_ok (update dt w)"
proof -
  let ?w1 = "move_entities dt w"
  let ?w2 = "detect_collisions ?w1"
  let ?w3 = "remove_enemies ?w2"
  let ?w4 = "spawn_enemies dt ?w3"
  have 1: "registry_ok ?w1"
    using assms evolves_move_entities_present [OF assms] by (rule registry_ok_evolves(1))
  have 2: "registry_ok ?w2"
    using 1 evolves_detect_collisions_present [OF 1] by (rule registry_ok_evolves(1))
  have 3: "registry_ok ?w3"
    using 2 by (rule registry_ok_remove_enemies)
  have "registry_ok ?w4"
    using 3 evolves_spawn_enemies [of UNIV ?w3 dt] by (rule registry_ok_evolves(1))
  then show ?thesis
    by (simp add: update_def restart_when_dead_def registry_ok_start)
qed

lemma registry_ok_loop_while: "registry_ok w \<Longrightarrow> registry_ok (loop_while c d w)"
proof (induction c d w rule: loop_while.induct)
  case (1 c d w)
  show ?case
  proof (cases "update_rate_seconds < d")
    case False
    then show ?thesis using "1.prems" by (simp add: loop_while.simps [of c d w])
  next
    case True
    let ?w2 = "draw (update update_rate_seconds w)"
    let ?w4 = "?w2\<lparr>last_time := Some c\<rparr>\<lparr>loop_count := loop_count (?w2\<lparr>last_time := Some c\<rparr>) + 1\<rparr>"
    have "registry_ok (update update_rate_seconds w)"
      using "1.prems" by (rule registry_ok_update)
    then have "registry_ok ?w2"
      using evolves_draw [of "update update_rate_seconds w"] by (rule registry_ok_evolves(1))
    then have "registry_ok ?w4"
      by (simp add: registry_ok_def)
    then have "registry_ok (loop_while c (d - update_rate_seconds) ?w4)"
      using "1.IH" [OF True refl refl refl refl refl] by simp
    then show ?thesis
      using True by (simp add: loop_while.simps [of c d w] Let_def)
  qed
qed

lemma registry_ok_dispatch: "registry_ok w \<Longrightarrow> registry_ok (dispatch ev w)"
proof (cases ev)
  case (AnimationFrame t)
  assume ok: "registry_ok w"
  then have "registry_ok (if last_time w = None then w\<lparr>last_time := Some (t / 1000)\<rparr> else w)"
    by (simp add: registry_ok_def)
  then show ?thesis
    by (simp add: AnimationFrame loop_def Let_def registry_ok_loop_while)
next
  case (KeyDown k)
  assume "registry_ok w"
  then show ?thesis
    unfolding KeyDown dispatch.simps
    using evolves_key(1) [of UNIV w k] by (rule registry_ok_evolves(1))
next
  case (KeyUp k)
  assume "registry_ok w"
  then show ?thesis
    unfolding KeyUp dispatch.simps
    using evolves_key(2) [of UNIV w k] by (rule registry_ok_evolves(1))
qed

lemma registry_ok_run: "registry_ok w \<Longrightarrow> registry_ok (run evs w)"
  unfolding run_def by (induction evs arbitrary: w) (simp_all add: registry_ok_dispatch)

lemma registry_ok_session: "registry_ok (run evs (new_game rnd))"
  by (simp add: registry_ok_run new_game_def registry_ok_start)

text \<open>
  C5. Every identity put in the removal queue during a tick, by an entity's own \<open>update\<close>
  or by the collision resolver, is in the registry when the collision scan starts; no part
  of the scan changes the registry, so it is there throughout the scan; and it is not in
  the registry when \<open>update\<close> returns, that is at the start of the next tick.
\<close>

theorem deferred_removal:
  assumes "registry_ok w"
    and "x \<in> set (drop (length (queued_entities_for_removal w))
        (queued_entities_for_removal (detect_collisions (move_entities dt w))))"
  shows "present (entities (move_entities dt w)) x \<and>
         entities (scan is js (move_entities dt w)) = entities (move_entities dt w) \<and>
         present (entities (detect_collisions (move_entities dt w))) x \<and>
         \<not> present (entities (update dt w)) x \<and>
         \<not> present (entities (draw (update dt w))) x"
proof -
  have p: "present (entities (move_entities dt w)) x"
    using assms by (rule queued_in_tick_present)
  have "x \<in> set (queued_entities_for_removal (detect_collisions (move_entities dt w)))"
    using assms(2) by (rule in_set_dropD)
  with assms(1) have "\<not> present (entities (update dt w)) x"
    using p by (rule purged_after_update)
  with p show ?thesis
    by (simp add: scan_entities entities_detect_collisions entities_draw)
qed

lemmas world_defs = world_player_mob_def world_mob_def new_game_def start_def script_loaded_def
  Player_new_def Mob_new_def half_stream_def pollController_def resetController_def
  canvas_size_width_def canvas_size_height_def array_set_def Body_fields_def

lemma world_player_mob_moved:
  "entities (move_entities (1 / 60) world_player_mob) = [Some 0, Some 1]"
  "queued_entities_for_removal (move_entities (1 / 60) world_player_mob) = []"
  "collision_handler (move_entities (1 / 60) world_player_mob) = Some ()"
  "type (heap (move_entities (1 / 60) world_player_mob) 0) = Some Player"
  "type (heap (move_entities (1 / 60) world_player_mob) (Suc 0)) = Some Mob"
  "id' (heap (move_entities (1 / 60) world_player_mob) (Suc 0)) = 1"
  "overlap (heap (move_entities (1 / 60) world_player_mob) 0)
     (heap (move_entities (1 / 60) world_player_mob) (Suc 0))"
  by (simp_all add: move_entities_def entity_update_def Player_update_def Mob_update_def
      Mob_switch_def overlap_def world_defs exec cong: let_weak_cong prod.case_cong_weak)

lemma world_player_mob_queue:
  "queued_entities_for_removal (detect_collisions (move_entities (1 / 60) world_player_mob)) = [1]"
proof -
  let ?w = "move_entities (1 / 60) world_player_mob"
  have hit: "Player_hits_Mob ?w 0 (Suc 0)"
    by (simp add: Player_hits_Mob_def world_player_mob_moved)
  have no: "\<not> Player_hits_Mob ?w 0 0" "\<not> Projectile_hits_Mob ?w 0 0"
    "\<not> Player_hits_Mob ?w (Suc 0) 0" "\<not> Projectile_hits_Mob ?w (Suc 0) 0"
    "\<not> Player_hits_Mob ?w (Suc 0) (Suc 0)" "\<not> Projectile_hits_Mob ?w (Suc 0) (Suc 0)"
    by (simp_all add: Player_hits_Mob_def Projectile_hits_Mob_def world_player_mob_moved)
  have "CollissionChecker_update ?w =
      collide (Suc 0) (Suc 0) (collide (Suc 0) 0 (collide 0 (Suc 0) (collide 0 0 ?w)))"
    by (simp add: CollissionChecker_update_pairs world_player_mob_moved)
  also have "\<dots> = collide 0 (Suc 0) ?w"
    using no by (simp add: collide_no_hit collide_after_no_hit)
  finally show ?thesis
    using hit by (simp add: detect_collisions_def world_player_mob_moved collide_queue)
qed

lemma registry_ok_world_player_mob: "registry_ok world_player_mob"
proof -
  have "world_player_mob = modify 1 (\<lambda>b. b\<lparr>position_y := 395\<rparr>)
      (snd (Mob_new (run [] (new_game half_stream))))"
    by (simp add: world_player_mob_def world_mob_def run_def)
  moreover have "registry_ok (snd (Mob_new (run [] (new_game half_stream))))"
    using registry_ok_session evolves_Mob_newI [OF evolves_refl]
    by (rule registry_ok_evolves(1))
  moreover have "evolves UNIV w (modify 1 (\<lambda>b. b\<lparr>position_y := 395\<rparr>) w)" for w
    by (intro evolves_intros) simp_all
  ultimately show ?thesis
    by (metis registry_ok_evolves(1))
qed

theorem deferred_removal_witness:
  "registry_ok world_player_mob \<and>
   queued_entities_for_removal world_player_mob = [] \<and>
   queued_entities_for_removal (detect_collisions (move_entities (1 / 60) world_player_mob)) = [1] \<and>
   present (entities (move_entities (1 / 60) world_player_mob)) 1 \<and>
   present (entities (detect_collisions (move_entities (1 / 60) world_player_mob))) 1 \<and>
   \<not> present (entities (update (1 / 60) world_player_mob)) 1"
proof -
  have x: "1 \<in> set (drop (length (queued_entities_for_removal world_player_mob))
      (queued_entities_for_removal (detect_collisions (move_entities (1 / 60) world_player_mob))))"
    by (simp add: world_player_mob_queue world_player_mob_simps)
  show ?thesis
    using deferred_removal [OF registry_ok_world_player_mob x]
    by (simp add: registry_ok_world_player_mob world_player_mob_queue world_player_mob_simps)
qed

subsection \<open>The whole effect of a scan\<close>

lemma collide_heap:
  "heap (collide rect1 rect2 w) r =
     (heap w r)\<lparr>health := health (heap w r) -
         (if r = rect1 \<and> Player_hits_Mob w rect1 rect2 then 20 else 0),
       mobsKilled := mobsKilled (heap w r) +
         (if r = player w \<and> Projectile_hits_Mob w rect1 rect2 then 1 else 0)\<rparr>"
proof (cases "Player_hits_Mob w rect1 rect2")
  case True
  then show ?thesis by (simp add: collide_Player_hits_Mob hits_exclusive)
next
  case False
  then show ?thesis
    by (cases "Projectile_hits_Mob w rect1 rect2")
      (simp_all add: collide_Projectile_hits_Mob collide_no_hit)
qed

lemma collide_globals:
  "collide rect1 rect2 w =
     w\<lparr>heap := heap (collide rect1 rect2 w),
       queued_entities_for_removal := queued_entities_for_removal (collide rect1 rect2 w)\<rparr>"
proof (cases "Player_hits_Mob w rect1 rect2")
  case True
  then show ?thesis by (simp add: collide_Player_hits_Mob)
next
  case False
  then show ?thesis
    by (cases "Projectile_hits_Mob w rect1 rect2")
      (simp_all add: collide_Projectile_hits_Mob collide_no_hit)
qed

lemma fold_collide_globals:
  "fold (\<lambda>(a, b). collide a b) ps w =
     w\<lparr>heap := heap (fold (\<lambda>(a, b). collide a b) ps w),
       queued_entities_for_removal :=
         queued_entities_for_removal (fold (\<lambda>(a, b). collide a b) ps w)\<rparr>"
proof (induction ps arbitrary: w)
  case Nil
  show ?case by simp
next
  case (Cons p ps)
  obtain a b where p: "p = (a, b)" by (cases p)
  let ?w1 = "collide a b w"
  let ?w2 = "fold (\<lambda>(a, b). collide a b) ps ?w1"
  have "?w2 = ?w1\<lparr>heap := heap ?w2, queued_entities_for_removal := queued_entities_for_removal ?w2\<rparr>"
    by (rule Cons.IH)
  also have "\<dots> = (w\<lparr>heap := heap ?w1, queued_entities_for_removal :=
      queued_entities_for_removal ?w1\<rparr>)\<lparr>heap := heap ?w2,
      queued_entities_for_removal := queued_entities_for_removal ?w2\<rparr>"
    using collide_globals [of a b w] by simp
  also have "\<dots> = w\<lparr>heap := heap ?w2, queued_entities_for_removal := queued_entities_for_removal ?w2\<rparr>"
    by simp
  finally show ?case by (simp add: p)
qed

lemma fold_collide_heap:
  "heap (fold (\<lambda>(a, b). collide a b) ps w) r =
     (heap w r)\<lparr>health := health (heap w r) -
         20 * int (length (filter (\<lambda>(a, b). a = r \<and> Player_hits_Mob w a b) ps)),
       mobsKilled := mobsKilled (heap w r) +
         (if r = player w then length (filter (\<lambda>(a, b). Projectile_hits_Mob w a b) ps) else 0)\<rparr>"
proof (induction ps arbitrary: w)
  case Nil
  show ?case by simp
next
  case (Cons p ps)
  obtain a b where p: "p = (a, b)" by (cases p)
  show ?case
    by (auto simp: p Cons.IH collide_hits collide_heap collide_frame)
qed

lemma fold_collide_queue:
  "queued_entities_for_removal (fold (\<lambda>(a, b). collide a b) ps w) =
     queued_entities_for_removal w @
       concat (map (\<lambda>(a, b).
         if Player_hits_Mob w a b then [id' (heap w b)]
         else if Projectile_hits_Mob w a b then [id' (heap w b), id' (heap w a)]
         else []) ps)"
proof (induction ps arbitrary: w)
  case Nil
  show ?case by simp
next
  case (Cons p ps)
  obtain a b where p: "p = (a, b)" by (cases p)
  let ?w1 = "collide a b w"
  have eq: "(\<lambda>(a, b).
         if Player_hits_Mob ?w1 a b then [id' (heap ?w1 b)]
         else if Projectile_hits_Mob ?w1 a b then [id' (heap ?w1 b), id' (heap ?w1 a)]
         else []) =
      (\<lambda>(a, b).
         if Player_hits_Mob w a b then [id' (heap w b)]
         else if Projectile_hits_Mob w a b then [id' (heap w b), id' (heap w a)]
         else [])"
    by (auto simp: fun_eq_iff collide_hits collide_shape)
  show ?case
    using Cons.IH [of ?w1] unfolding eq by (simp add: p collide_queue)
qed

text \<open>
  C3. The scan, over any registry: it visits every ordered pair \<open>(rect1, rect2)\<close> of
  live bodies once and changes nothing but the health and the kill count of bodies and the
  removal queue. A pair has an effect only if the overlap test holds and the kinds are
  \<open>Player\<close> then \<open>Mob\<close>, or \<open>Projectile\<close> then \<open>Mob\<close>; bodies of the same kind and
  all other combinations have none. Each overlapping \<open>Player\<close>, \<open>Mob\<close> pair takes exactly
  20 off the health of the player body and puts the identity of the mob in the queue; each
  overlapping \<open>Projectile\<close>, \<open>Mob\<close> pair puts both identities in the queue, the mob first,
  and adds 1 to the kill count of the player. The queue receives these identities in the
  order of the scan.
\<close>

theorem CollissionChecker_update_every_pair:
  "let rs = Object_values (entities w); ps = List.product rs rs;
       w' = CollissionChecker_update w
   in w' = w\<lparr>heap := heap w',
             queued_entities_for_removal := queued_entities_for_removal w'\<rparr> \<and>
      (\<forall>r. heap w' r =
         (heap w r)\<lparr>health := health (heap w r) -
             20 * int (length (filter (\<lambda>(rect1, rect2).
               rect1 = r \<and> Player_hits_Mob w rect1 rect2) ps)),
           mobsKilled := mobsKilled (heap w r) +
             (if r = player w
              then length (filter (\<lambda>(rect1, rect2). Projectile_hits_Mob w rect1 rect2) ps)
              else 0)\<rparr>) \<and>
      queued_entities_for_removal w' =
        queued_entities_for_removal w @
          concat (map (\<lambda>(rect1, rect2).
            if Player_hits_Mob w rect1 rect2 then [id' (heap w rect2)]
            else if Projectile_hits_Mob w rect1 rect2
              then [id' (heap w rect2), id' (heap w rect1)]
            else []) ps)"
  unfolding Let_def CollissionChecker_update_pairs
  using fold_collide_globals [of "List.product (Object_values (entities w))
      (Object_values (entities w))" w]
  by (intro conjI allI) (simp_all add: fold_collide_heap fold_collide_queue)

theorem CollissionChecker_update_every_pair_witness:
  "Object_values (entities world_collision) = [0, 1, 2] \<and>
   Player_hits_Mob world_collision 0 1 \<and> Projectile_hits_Mob world_collision 2 1 \<and>
   health (heap (CollissionChecker_update world_collision) 0) = 80 \<and>
   mobsKilled (heap (CollissionChecker_update world_collision) 0) = 1 \<and>
   health (heap (CollissionChecker_update world_collision) 1) =
     health (heap world_collision 1) \<and>
   queued_entities_for_removal (CollissionChecker_update world_collision) = [1, 1, 2]"
proof -
  let ?w = world_collision
  note th = CollissionChecker_update_every_pair [of ?w, unfolded Let_def]
  have ps: "List.product (Object_values (entities ?w)) (Object_values (entities ?w)) =
      [(0, 0), (0, 1), (0, 2), (1, 0), (1, 1), (1, 2), (2, 0), (2, 1), (2, 2)]"
    by (simp add: world_collision_globals)
  have pm: "Player_hits_Mob ?w 0 (Suc 0)"
    "\<not> Player_hits_Mob ?w 0 0" "\<not> Player_hits_Mob ?w 0 2"
    "\<not> Player_hits_Mob ?w (Suc 0) 0" "\<not> Player_hits_Mob ?w (Suc 0) (Suc 0)"
    "\<not> Player_hits_Mob ?w (Suc 0) 2" "\<not> Player_hits_Mob ?w 2 0"
    "\<not> Player_hits_Mob ?w 2 (Suc 0)" "\<not> Player_hits_Mob ?w 2 2"
    by (simp_all add: Player_hits_Mob_def overlap_def world_collision_simps)
  have jm: "Projectile_hits_Mob ?w 2 (Suc 0)"
    "\<not> Projectile_hits_Mob ?w 0 0" "\<not> Projectile_hits_Mob ?w 0 (Suc 0)"
    "\<not> Projectile_hits_Mob ?w 0 2" "\<not> Projectile_hits_Mob ?w (Suc 0) 0"
    "\<not> Projectile_hits_Mob ?w (Suc 0) (Suc 0)" "\<not> Projectile_hits_Mob ?w (Suc 0) 2"
    "\<not> Projectile_hits_Mob ?w 2 0" "\<not> Projectile_hits_Mob ?w 2 2"
    by (simp_all add: Projectile_hits_Mob_def overlap_def world_collision_simps)
  have "heap (CollissionChecker_update ?w) 0 =
      (heap ?w 0)\<lparr>health := health (heap ?w 0) - 20 * int (length (filter (\<lambda>(rect1, rect2).
               rect1 = 0 \<and> Player_hits_Mob ?w rect1 rect2)
            (List.product (Object_values (entities ?w)) (Object_values (entities ?w))))),
        mobsKilled := mobsKilled (heap ?w 0) +
          (if 0 = player ?w
           then length (filter (\<lambda>(rect1, rect2). Projectile_hits_Mob ?w rect1 rect2)
             (List.product (Object_values (entities ?w)) (Object_values (entities ?w))))
           else 0)\<rparr>"
    using th by blast
  then have h0: "health (heap (CollissionChecker_update ?w) 0) = 80"
    "mobsKilled (heap (CollissionChecker_update ?w) 0) = 1"
    unfolding ps by (simp_all add: pm jm world_collision_simps)
  have "heap (CollissionChecker_update ?w) 1 =
      (heap ?w 1)\<lparr>health := health (heap ?w 1) - 20 * int (length (filter (\<lambda>(rect1, rect2).
               rect1 = 1 \<and> Player_hits_Mob ?w rect1 rect2)
            (List.product (Object_values (entities ?w)) (Object_values (entities ?w))))),
        mobsKilled := mobsKilled (heap ?w 1) +
          (if 1 = player ?w
           then length (filter (\<lambda>(rect1, rect2). Projectile_hits_Mob ?w rect1 rect2)
             (List.product (Object_values (entities ?w)) (Object_values (entities ?w))))
           else 0)\<rparr>"
    using th by blast
  then have h1: "health (heap (CollissionChecker_update ?w) 1) = health (heap ?w 1)"
    unfolding ps by (simp add: pm jm world_collision_simps)
  have "queued_entities_for_removal (CollissionChecker_update ?w) =
      queued_entities_for_removal ?w @
          concat (map (\<lambda>(rect1, rect2).
            if Player_hits_Mob ?w rect1 rect2 then [id' (heap ?w rect2)]
            else if Projectile_hits_Mob ?w rect1 rect2
              then [id' (heap ?w rect2), id' (heap ?w rect1)]
            else [])
           (List.product (Object_values (entities ?w)) (Object_values (entities ?w))))"
    using th by blast
  then have q: "queued_entities_for_removal (CollissionChecker_update ?w) = [1, 1, 2]"
    unfolding ps by (simp add: pm jm world_collision_simps)
  show ?thesis
    using h0 h1 q pm(1) jm(1) by (simp add: world_collision_globals)
qed

section \<open>Sessions in rounded arithmetic\<close>

text \<open>
  What holds of the identities and of the registry in every state of a session does not
  depend on the arithmetic of the loop: it holds in every state that a session with the
  rounded loop reaches.
\<close>

lemma ids_grow_run_rounded:
  "run_rounded fdiv fsub evs w = Some w' \<Longrightarrow> ids_grow w w'"
proof (induction evs arbitrary: w)
  case Nil
  then show ?case by (simp add: ids_grow_refl)
next
  case (Cons ev evs)
  from Cons.prems obtain w1 where 1: "dispatch_rounded fdiv fsub ev w = Some w1"
    and 2: "run_rounded fdiv fsub evs w1 = Some w'"
    by (auto split: option.splits)
  have "ids_grow w w1"
  proof (cases ev)
    case (AnimationFrame t)
    with 1 show ?thesis by (simp add: ids_grow_loop_rounded)
  next
    case (KeyDown k)
    with 1 show ?thesis using evolves_ids_grow [OF evolves_key(1)] by auto
  next
    case (KeyUp k)
    with 1 show ?thesis using evolves_ids_grow [OF evolves_key(2)] by auto
  qed
  with Cons.IH [OF 2] show ?case by (blast intro: ids_grow_trans)
qed

lemma registry_ok_loop_body: "registry_ok w \<Longrightarrow> registry_ok (loop_body s c w)"
proof -
  assume "registry_ok w"
  then have "registry_ok (update s w)" by (rule registry_ok_update)
  then have "registry_ok (draw (update s w))"
    using evolves_draw [of "update s w"] by (rule registry_ok_evolves(1))
  then show ?thesis
    by (simp add: loop_body_def Let_def registry_ok_def)
qed

lemma registry_ok_loop_body_funpow:
  "registry_ok w \<Longrightarrow> registry_ok ((loop_body s c ^^ n) w)"
  by (induction n) (simp_all add: registry_ok_loop_body)

lemma registry_ok_loop_rounded:
  assumes "registry_ok w" and "loop_rounded fdiv fsub t w = Some w'"
  shows "registry_ok w'"
proof -
  let ?c = "fdiv t 1000"
  let ?s = "fdiv 1 update_rate_fps"
  let ?w1 = "if last_time w = None then w\<lparr>last_time := Some ?c\<rparr> else w"
  from assms(2) have "loop_while_rounded fsub ?s ?c (fsub ?c (the (last_time ?w1))) ?w1 = Some w'"
    by (simp add: loop_rounded_def Let_def)
  from loop_while_rounded_returns [OF this] obtain n
    where n: "w' = (loop_body ?s ?c ^^ n) ?w1"
    by (elim exE conjE)
  have "registry_ok ?w1"
    using assms(1) by (simp add: registry_ok_def)
  then show ?thesis
    unfolding n by (rule registry_ok_loop_body_funpow)
qed

lemma registry_ok_run_rounded:
  "registry_ok w \<Longrightarrow> run_rounded fdiv fsub evs w = Some w' \<Longrightarrow> registry_ok w'"
proof (induction evs arbitrary: w)
  case Nil
  then show ?case by simp
next
  case (Cons ev evs)
  from Cons.prems(2) obtain w1 where 1: "dispatch_rounded fdiv fsub ev w = Some w1"
    and 2: "run_rounded fdiv fsub evs w1 = Some w'"
    by (auto split: option.splits)
  have "registry_ok w1"
  proof (cases ev)
    case (AnimationFrame t)
    with 1 Cons.prems(1) show ?thesis by (simp add: registry_ok_loop_rounded)
  next
    case (KeyDown k)
    with 1 have "w1 = keydown k w" by simp
    then show ?thesis
      using Cons.prems(1) evolves_key(1) [of UNIV w k] by (simp add: registry_ok_evolves(1))
  next
    case (KeyUp k)
    with 1 have "w1 = keyup k w" by simp
    then show ?thesis
      using Cons.prems(1) evolves_key(2) [of UNIV w k] by (simp add: registry_ok_evolves(1))
  qed
  then show ?case using 2 by (rule Cons.IH)
qed

end
